theory Spec2Isabelle
  imports Main
begin

section \<open>JavaScript values\<close>

text \<open>
  The routes of the dashboard are TypeScript running on Node. The values that
  the reconciliation of a rescan compares are JSON values: strings, \<open>null\<close>,
  arrays of strings (the tags) and arbitrary JSON trees (the details). A
  property that is absent from an object reads as \<open>undefined\<close>, which is not a
  JSON value: a value that may be \<open>undefined\<close> is a \<open>json option\<close>, with \<open>None\<close>
  for \<open>undefined\<close>. A string is the list of the bytes of its text in UTF-8. A number
  is an integer that a double holds exactly and that JavaScript prints in decimal
  notation. The members of an object are listed in the order in which
  JavaScript enumerates its own properties.
\<close>

datatype json =
    JNull
  | JBool bool
  | JNum int
  | JStr string
  | JArr "json list"
  | JObj "(string \<times> json) list"

text \<open>A property of type \<open>T | null | undefined\<close>.\<close>

datatype 'a optional = Undefined | Null | Value 'a

text \<open>
  A thrown value: an \<open>Error\<close> object with its name and message, or any other value,
  given by the text that \<open>String(v)\<close> yields.
\<close>

datatype thrown = Error string string | NonError string

text \<open>\<open>error instanceof Error ? error.message : "Unknown error"\<close>\<close>

fun message_of :: "thrown \<Rightarrow> string" where
  "message_of (Error n m) = m"
| "message_of (NonError s) = ''Unknown error''"

text \<open>\<open>`${error}`\<close>: \<open>Error.prototype.toString\<close> for an error object.\<close>

fun toString :: "thrown \<Rightarrow> string" where
  "toString (Error n m) = (if n = [] then m else if m = [] then n else n @ '': '' @ m)"
| "toString (NonError s) = s"

subsection \<open>\<open>JSON.stringify\<close>\<close>

definition hex_digit :: "nat \<Rightarrow> char" where
  "hex_digit n = (if n < 10 then char_of (48 + n) else char_of (87 + n))"

text \<open>
  \<open>QuoteJSONString\<close>: the double quote and the backslash are escaped with a
  backslash, the control characters below U+0020 are written \<open>\b\<close>, \<open>\t\<close>, \<open>\n\<close>,
  \<open>\f\<close>, \<open>\r\<close> or \<open>\u00XX\<close>, every other character stands for itself.
\<close>

definition escape_char :: "char \<Rightarrow> string" where
  "escape_char c =
     (if c = CHR 0x22 then [CHR 0x5C, CHR 0x22]
      else if c = CHR 0x5C then [CHR 0x5C, CHR 0x5C]
      else if c = CHR 0x08 then [CHR 0x5C, CHR ''b'']
      else if c = CHR 0x09 then [CHR 0x5C, CHR ''t'']
      else if c = CHR 0x0A then [CHR 0x5C, CHR ''n'']
      else if c = CHR 0x0C then [CHR 0x5C, CHR ''f'']
      else if c = CHR 0x0D then [CHR 0x5C, CHR ''r'']
      else if (of_char c :: nat) < 32
        then [CHR 0x5C, CHR ''u'', CHR ''0'', CHR ''0'',
              hex_digit (of_char c div 16), hex_digit (of_char c mod 16)]
      else [c])"

definition quote :: "string \<Rightarrow> string" where
  "quote s = CHR 0x22 # concat (map escape_char s) @ [CHR 0x22]"

function show_nat :: "nat \<Rightarrow> string" where
  "show_nat n =
     (if n < 10 then [char_of (48 + n)]
      else show_nat (n div 10) @ [char_of (48 + n mod 10)])"
  by pat_completeness auto
termination
  by (relation "measure (\<lambda>n. n)") auto

declare show_nat.simps [simp del]

definition show_int :: "int \<Rightarrow> string" where
  "show_int i = (if i < 0 then CHR ''-'' # show_nat (nat (- i)) else show_nat (nat i))"

text \<open>The elements of an array or the members of an object, separated by commas.\<close>

fun commas :: "string list \<Rightarrow> string" where
  "commas [] = []"
| "commas [s] = s"
| "commas (s # t # ss) = s @ CHR '','' # commas (t # ss)"

fun stringify :: "json \<Rightarrow> string" where
  "stringify JNull = ''null''"
| "stringify (JBool b) = (if b then ''true'' else ''false'')"
| "stringify (JNum i) = show_int i"
| "stringify (JStr s) = quote s"
| "stringify (JArr xs) = CHR ''['' # commas (map stringify xs) @ '']''"
| "stringify (JObj ps) =
     CHR ''{'' # commas (map (\<lambda>(k, v). quote k @ CHR '':'' # stringify v) ps) @ ''}''"

text \<open>\<open>JSON.stringify(v)\<close> is \<open>undefined\<close> when \<open>v\<close> is, and the text of \<open>v\<close> otherwise.\<close>

definition JSON_stringify :: "json option \<Rightarrow> string option" where
  "JSON_stringify v = map_option stringify v"

text \<open>
  The values that \<open>||\<close> replaces by its right operand: \<open>undefined\<close>, \<open>null\<close>, \<open>false\<close>,
  \<open>0\<close> and the empty string.
\<close>

fun falsy :: "json option \<Rightarrow> bool" where
  "falsy None = True"
| "falsy (Some JNull) = True"
| "falsy (Some (JBool b)) = (\<not> b)"
| "falsy (Some (JNum i)) = (i = 0)"
| "falsy (Some (JStr s)) = (s = [])"
| "falsy (Some (JArr xs)) = False"
| "falsy (Some (JObj ps)) = False"

text \<open>\<open>s || ''\<close> on a property of type \<open>string | null | undefined\<close>.\<close>

fun or_empty :: "string optional \<Rightarrow> string" where
  "or_empty Undefined = []"
| "or_empty Null = []"
| "or_empty (Value s) = s"

fun js_of_string :: "string optional \<Rightarrow> json option" where
  "js_of_string Undefined = None"
| "js_of_string Null = Some JNull"
| "js_of_string (Value s) = Some (JStr s)"

subsection \<open>\<open>Map\<close>\<close>

text \<open>
  A JavaScript \<open>Map\<close> keeps its entries in the order in which their keys were
  first inserted: \<open>set\<close> on a key that is present replaces the value where the
  entry stands, and \<open>forEach\<close> visits the entries in that order.
\<close>

fun Map_set :: "('k \<times> 'v) list \<Rightarrow> 'k \<Rightarrow> 'v \<Rightarrow> ('k \<times> 'v) list" where
  "Map_set [] k v = [(k, v)]"
| "Map_set ((k', v') # m) k v =
     (if k' = k then (k, v) # m else (k', v') # Map_set m k v)"

definition Map_has :: "('k \<times> 'v) list \<Rightarrow> 'k \<Rightarrow> bool" where
  "Map_has m k = (map_of m k \<noteq> None)"

definition Map_get :: "('k \<times> 'v) list \<Rightarrow> 'k \<Rightarrow> 'v option" where
  "Map_get m k = map_of m k"

section \<open>The data model (prisma/schema.prisma)\<close>

text \<open>
  Modelled from the spec: the type of a finding as an analysis returns it, which
  is declared in \<open>lib/types\<close> and is missing. The fields are those that
  \<open>processScan\<close> and \<open>handleRescanDiff\<close> read; the optional ones are those that
  the spec and the schema call optional. Timestamps are milliseconds.
\<close>

record finding =
  url :: string
  message :: string
  element :: "string optional"
  severity :: string
  impact :: "string optional"
  help' :: "string optional"
  tags :: "string list"
  elementPath :: "string optional"
  details :: "json option"
  createdAt :: int

text \<open>
  A row of the table \<open>Result\<close>. The identifiers, \<open>cuid()\<close> strings in the schema,
  are natural numbers that the store hands out from a counter. A row that was
  read from the store has no \<open>undefined\<close> field.
\<close>

record result = finding +
  id' :: nat
  scanId :: nat
  updatedAt :: int

text \<open>A row of the table \<open>Scan\<close>; the status is a string, as in the schema.\<close>

record scan =
  scan_id :: nat
  projectId :: nat
  scan_url :: string
  status :: string
  startedAt :: "int option"
  completedAt :: "int option"
  error :: "string option"
  totalIssues :: "int option"
  criticalIssues :: "int option"
  seriousIssues :: "int option"
  moderateIssues :: "int option"
  minorIssues :: "int option"
  analysisMethod :: "string option"
  scan_createdAt :: int
  scan_updatedAt :: int

text \<open>
  The store: the tables \<open>Scan\<close> and \<open>Result\<close>, and the next identifier to hand out.
  The tables \<open>Project\<close> and \<open>Url\<close> are read by the routes through one query each,
  whose answer the routes below take as their input.
\<close>

record store =
  scan_table :: "scan list"
  result_table :: "result list"
  nextId :: nat

section \<open>The persistence gateway (Prisma)\<close>

text \<open>
  Every call of the Prisma client may be rejected by the database. A fault plan
  says, for each call site of \<open>app/api/scans/route.ts\<close>, whether the call throws
  and what: \<open>None\<close> lets the call through. The number after each field is the
  line of the call.
\<close>

record faults =
  scan_update_reset_fault :: "thrown option"        \<comment> \<open>26\<close>
  scan_create_fault :: "thrown option"              \<comment> \<open>44\<close>
  scan_update_failed_POST_fault :: "thrown option"  \<comment> \<open>63\<close>
  result_createMany_fault :: "thrown option"        \<comment> \<open>131\<close>
  scan_update_completed_fault :: "thrown option"    \<comment> \<open>153\<close>
  scan_update_failed_fault :: "thrown option"       \<comment> \<open>172\<close>
  result_findMany_fault :: "thrown option"          \<comment> \<open>190\<close>
  tx_commit_fault :: "thrown option"                \<comment> \<open>260\<close>
  tx_deleteMany_fault :: "thrown option"            \<comment> \<open>263\<close>
  tx_createMany_fault :: "thrown option"            \<comment> \<open>273\<close>
  tx_update_fault :: "nat \<Rightarrow> thrown option"         \<comment> \<open>293, by the id of the row\<close>

text \<open>\<open>prisma.result.findMany({ where: { scanId } })\<close>: the rows of the scan, in the order of the table.\<close>

definition findMany :: "thrown option \<Rightarrow> nat \<Rightarrow> store \<Rightarrow> thrown + result list" where
  "findMany fault sid st =
     (case fault of Some e \<Rightarrow> Inl e
      | None \<Rightarrow> Inr (filter (\<lambda>r. scanId r = sid) (result_table st)))"

text \<open>\<open>tx.result.deleteMany({ where: { id: { in: ids } } })\<close>\<close>

definition deleteMany :: "thrown option \<Rightarrow> nat list \<Rightarrow> store \<Rightarrow> thrown + store" where
  "deleteMany fault ids st =
     (case fault of Some e \<Rightarrow> Inl e
      | None \<Rightarrow> Inr (st\<lparr>result_table := filter (\<lambda>r. id' r \<notin> set ids) (result_table st)\<rparr>))"

text \<open>
  The column \<open>details\<close> is of type \<open>JSONB\<close> (migration.sql, line 44). PostgreSQL
  keeps the members of an object of that type sorted, a shorter key before a
  longer one and keys of the same length by their bytes, and keeps the last of
  the members that share a key.
\<close>

fun bytes_before :: "string \<Rightarrow> string \<Rightarrow> bool" where
  "bytes_before [] t = (t \<noteq> [])"
| "bytes_before (c # s) [] = False"
| "bytes_before (c # s) (d # t) =
     ((of_char c :: nat) < of_char d \<or> (c = d \<and> bytes_before s t))"

definition key_before :: "string \<Rightarrow> string \<Rightarrow> bool" where
  "key_before a b = (length a < length b \<or> (length a = length b \<and> bytes_before a b))"

fun jsonb_put :: "(string \<times> 'v) list \<Rightarrow> string \<Rightarrow> 'v \<Rightarrow> (string \<times> 'v) list" where
  "jsonb_put [] k v = [(k, v)]"
| "jsonb_put ((k', v') # ms) k v =
     (if k = k' then (k, v) # ms
      else if key_before k k' then (k, v) # (k', v') # ms
      else (k', v') # jsonb_put ms k v)"

text \<open>
  The object that the client makes of the stored text is a JavaScript object,
  which enumerates first the keys that are array indices (the numerals of the
  integers up to \<open>2\<^sup>3\<^sup>2 - 2\<close>), in ascending order, and then its other keys in
  the order in which they were added.
\<close>

definition digit_char :: "char \<Rightarrow> bool" where
  "digit_char c = (48 \<le> (of_char c :: nat) \<and> (of_char c :: nat) < 58)"

definition array_index :: "string \<Rightarrow> bool" where
  "array_index k =
     (k \<noteq> [] \<and> list_all digit_char k \<and> (k = ''0'' \<or> hd k \<noteq> CHR ''0'')
      \<and> \<not> key_before ''4294967294'' k)"

definition own_keys :: "(string \<times> 'v) list \<Rightarrow> (string \<times> 'v) list" where
  "own_keys ms =
     filter (\<lambda>(k, v). array_index k) ms @ filter (\<lambda>(k, v). \<not> array_index k) ms"

text \<open>A JSON value as it is read back after it was written to a column of type \<open>JSONB\<close>.\<close>

fun jsonb :: "json \<Rightarrow> json" where
  "jsonb (JArr xs) = JArr (map jsonb xs)"
| "jsonb (JObj ms) =
     JObj (own_keys (foldl (\<lambda>acc (k, v). jsonb_put acc k v) []
                       (map (\<lambda>(k, v). (k, jsonb v)) ms)))"
| "jsonb JNull = JNull"
| "jsonb (JBool b) = JBool b"
| "jsonb (JNum i) = JNum i"
| "jsonb (JStr s) = JStr s"

text \<open>
  A column that the data of a \<open>create\<close> leaves \<open>undefined\<close> is stored as \<open>NULL\<close>
  and read back as \<open>null\<close>.
\<close>

fun stored :: "'a optional \<Rightarrow> 'a optional" where
  "stored Undefined = Null"
| "stored Null = Null"
| "stored (Value x) = Value x"

definition stored_json :: "json option \<Rightarrow> json option" where
  "stored_json v = (case v of None \<Rightarrow> Some JNull | Some j \<Rightarrow> Some (jsonb j))"

text \<open>
  The row that the store makes of one data object of a \<open>createMany\<close>: the id is
  the default \<open>cuid()\<close>, \<open>updatedAt\<close> is the time of the write.
\<close>

definition new_row :: "nat \<Rightarrow> int \<Rightarrow> nat \<Rightarrow> finding \<Rightarrow> result" where
  "new_row sid now i d =
     \<lparr>url = url d, message = message d, element = stored (element d),
      severity = severity d, impact = stored (impact d), help' = stored (help' d),
      tags = tags d, elementPath = stored (elementPath d),
      details = stored_json (details d), createdAt = createdAt d,
      id' = i, scanId = sid, updatedAt = now\<rparr>"

text \<open>
  \<open>prisma.result.createMany({ data })\<close>, every data object carrying \<open>scanId\<close>, which
  refers to a row of the table \<open>Scan\<close>: the store refuses the rows of a scan that
  it does not hold.
\<close>

definition createMany ::
  "thrown option \<Rightarrow> nat \<Rightarrow> int \<Rightarrow> finding list \<Rightarrow> store \<Rightarrow> thrown + store" where
  "createMany fault sid now data st =
     (case fault of Some e \<Rightarrow> Inl e
      | None \<Rightarrow>
          if list_ex (\<lambda>s. scan_id s = sid) (scan_table st)
          then Inr (st\<lparr>result_table := result_table st @
                        map (\<lambda>(i, d). new_row sid now i d)
                            (zip [nextId st ..< nextId st + length data] data),
                      nextId := nextId st + length data\<rparr>)
          else Inl (Error ''PrismaClientKnownRequestError''
                          ''Foreign key constraint failed on the field: Result_scanId_fkey''))"

text \<open>The five fields that a rescan may change.\<close>

datatype field = F_help | F_impact | F_tags | F_elementPath | F_details

text \<open>\<open>result[field]\<close>, as a JavaScript value.\<close>

fun get_field :: "field \<Rightarrow> 'a finding_scheme \<Rightarrow> json option" where
  "get_field F_help r = js_of_string (help' r)"
| "get_field F_impact r = js_of_string (impact r)"
| "get_field F_tags r = Some (JArr (map JStr (tags r)))"
| "get_field F_elementPath r = js_of_string (elementPath r)"
| "get_field F_details r = details r"

text \<open>
  The object \<open>updates\<close> of \<open>handleRescanDiff\<close>: the changed fields with their new
  values, in the order in which they were assigned, and \<open>updatedAt\<close>.
\<close>

record updates =
  changed :: "(field \<times> json option) list"
  u_updatedAt :: int

fun strings_of :: "json list \<Rightarrow> string list option" where
  "strings_of [] = Some []"
| "strings_of (JStr s # xs) = map_option ((#) s) (strings_of xs)"
| "strings_of (x # xs) = None"

text \<open>
  One entry of the data of an \<open>update\<close>. A value that is \<open>undefined\<close> leaves the
  column as it is; a value of the wrong type for the column is refused (\<open>None\<close>);
  any JSON value is taken for the column \<open>details\<close>, which holds it as \<open>JSONB\<close>.
\<close>

fun set_field :: "field \<times> json option \<Rightarrow> result \<Rightarrow> result option" where
  "set_field (f, None) r = Some r"
| "set_field (F_help, Some JNull) r = Some (r\<lparr>help' := Null\<rparr>)"
| "set_field (F_help, Some (JStr s)) r = Some (r\<lparr>help' := Value s\<rparr>)"
| "set_field (F_impact, Some JNull) r = Some (r\<lparr>impact := Null\<rparr>)"
| "set_field (F_impact, Some (JStr s)) r = Some (r\<lparr>impact := Value s\<rparr>)"
| "set_field (F_elementPath, Some JNull) r = Some (r\<lparr>elementPath := Null\<rparr>)"
| "set_field (F_elementPath, Some (JStr s)) r = Some (r\<lparr>elementPath := Value s\<rparr>)"
| "set_field (F_tags, Some (JArr xs)) r =
     map_option (\<lambda>ts. r\<lparr>tags := ts\<rparr>) (strings_of xs)"
| "set_field (F_details, Some j) r = Some (r\<lparr>details := Some (jsonb j)\<rparr>)"
| "set_field (f, Some j) r = None"

text \<open>What a column holds after a value was written to it.\<close>

definition stored_value :: "field \<Rightarrow> json option \<Rightarrow> json option" where
  "stored_value f v = (if f = F_details then map_option jsonb v else v)"

fun set_fields :: "(field \<times> json option) list \<Rightarrow> result \<Rightarrow> result option" where
  "set_fields [] r = Some r"
| "set_fields (c # cs) r =
     (case set_field c r of None \<Rightarrow> None | Some r' \<Rightarrow> set_fields cs r')"

text \<open>
  \<open>tx.result.update({ where: { id }, data: updates })\<close>: the row with this id is
  rewritten; the call throws when there is no such row or when the data is
  refused (one error stands for both).
\<close>

fun update_row :: "nat \<Rightarrow> updates \<Rightarrow> result list \<Rightarrow> result list option" where
  "update_row i u [] = None"
| "update_row i u (r # rs) =
     (if id' r = i
      then map_option (\<lambda>r'. r'\<lparr>updatedAt := u_updatedAt u\<rparr> # rs) (set_fields (changed u) r)
      else map_option ((#) r) (update_row i u rs))"

definition update :: "thrown option \<Rightarrow> nat \<Rightarrow> updates \<Rightarrow> store \<Rightarrow> thrown + store" where
  "update fault i u st =
     (case fault of Some e \<Rightarrow> Inl e
      | None \<Rightarrow>
          (case update_row i u (result_table st) of
             None \<Rightarrow> Inl (Error ''PrismaClientKnownRequestError'' ''Invalid update'')
           | Some rs \<Rightarrow> Inr (st\<lparr>result_table := rs\<rparr>)))"

text \<open>
  \<open>prisma.$transaction(body)\<close>: the writes of the body are committed together
  when the body returns, and none of them is kept when the body or the commit
  throws; what was thrown is thrown again.
\<close>

definition transaction ::
  "thrown option \<Rightarrow> (store \<Rightarrow> thrown + store) \<Rightarrow> store \<Rightarrow> thrown option \<times> store" where
  "transaction commit_fault body st =
     (case body st of
        Inl e \<Rightarrow> (Some e, st)
      | Inr st' \<Rightarrow> (case commit_fault of Some e \<Rightarrow> (Some e, st) | None \<Rightarrow> (None, st')))"

section \<open>Reconciliation of a rescan (app/api/scans/route.ts)\<close>

text \<open>
  \<open>createKey\<close>: the fields \<open>url\<close>, \<open>message\<close>, \<open>element || ''\<close> and \<open>severity\<close>, joined
  by \<open>|\<close>. The same function is applied to stored rows and to fresh findings.
\<close>

definition createKey :: "'a finding_scheme \<Rightarrow> string" where
  "createKey r =
     url r @ ''|'' @ message r @ ''|'' @ or_empty (element r) @ ''|'' @ severity r"

definition existingMap :: "result list \<Rightarrow> (string \<times> result) list" where
  "existingMap existingResults =
     foldl (\<lambda>m r. Map_set m (createKey r) r) [] existingResults"

definition newMap :: "finding list \<Rightarrow> (string \<times> finding) list" where
  "newMap newResults = foldl (\<lambda>m r. Map_set m (createKey r) r) [] newResults"

definition toAdd :: "result list \<Rightarrow> finding list \<Rightarrow> finding list" where
  "toAdd existingResults newResults =
     map snd (filter (\<lambda>(key, r). \<not> Map_has (existingMap existingResults) key)
                     (newMap newResults))"

definition toRemove :: "result list \<Rightarrow> finding list \<Rightarrow> nat list" where
  "toRemove existingResults newResults =
     map (\<lambda>(key, r). id' r)
         (filter (\<lambda>(key, r). \<not> Map_has (newMap newResults) key)
                 (existingMap existingResults))"

definition fieldsToCheck :: "field list" where
  "fieldsToCheck = [F_help, F_impact, F_tags, F_elementPath, F_details]"

text \<open>The loop over \<open>fieldsToCheck\<close>: the entries of \<open>updates\<close>, in order.\<close>

definition changes :: "result \<Rightarrow> finding \<Rightarrow> (field \<times> json option) list" where
  "changes existingResult newResult =
     map (\<lambda>f. (f, get_field f newResult))
         (filter (\<lambda>f. JSON_stringify (get_field f existingResult)
                        \<noteq> JSON_stringify (get_field f newResult))
                 fieldsToCheck)"

definition toUpdate :: "int \<Rightarrow> result list \<Rightarrow> finding list \<Rightarrow> (nat \<times> updates) list" where
  "toUpdate now existingResults newResults =
     concat (map (\<lambda>(key, existingResult).
                    (case Map_get (newMap newResults) key of
                       None \<Rightarrow> []
                     | Some newResult \<Rightarrow>
                         (let cs = changes existingResult newResult
                          in if cs \<noteq> []
                             then [(id' existingResult,
                                    \<lparr>changed = cs, u_updatedAt = now\<rparr>)]
                             else [])))
                 (existingMap existingResults))"

text \<open>The data object that \<open>createMany\<close> receives for a finding: \<open>details || {}\<close>.\<close>

definition data_of :: "finding \<Rightarrow> finding" where
  "data_of r = r\<lparr>details := (if falsy (details r) then Some (JObj []) else details r)\<rparr>"

fun update_all :: "(nat \<Rightarrow> thrown option) \<Rightarrow> (nat \<times> updates) list \<Rightarrow> store \<Rightarrow> thrown + store" where
  "update_all fault [] st = Inr st"
| "update_all fault ((i, u) # us) st =
     (case update (fault i) i u st of
        Inl e \<Rightarrow> Inl e
      | Inr st' \<Rightarrow> update_all fault us st')"

text \<open>The body of the transaction (lines 260 to 301).\<close>

definition tx_body ::
  "faults \<Rightarrow> nat \<Rightarrow> int \<Rightarrow> nat list \<Rightarrow> finding list \<Rightarrow> (nat \<times> updates) list
   \<Rightarrow> store \<Rightarrow> thrown + store" where
  "tx_body fl sid now rem add upd st =
     (case (if rem \<noteq> [] then deleteMany (tx_deleteMany_fault fl) rem st else Inr st) of
        Inl e \<Rightarrow> Inl e
      | Inr st1 \<Rightarrow>
          (case (if add \<noteq> []
                 then createMany (tx_createMany_fault fl) sid now (map data_of add) st1
                 else Inr st1) of
             Inl e \<Rightarrow> Inl e
           | Inr st2 \<Rightarrow> update_all (tx_update_fault fl) upd st2))"

text \<open>
  \<open>handleRescanDiff\<close> returns what it throws, if it throws, and the store as it
  is left.
\<close>

definition handleRescanDiff ::
  "faults \<Rightarrow> int \<Rightarrow> nat \<Rightarrow> finding list \<Rightarrow> store \<Rightarrow> thrown option \<times> store" where
  "handleRescanDiff fl now sid newResults st =
     (case findMany (result_findMany_fault fl) sid st of
        Inl e \<Rightarrow> (Some e, st)
      | Inr existingResults \<Rightarrow>
          transaction (tx_commit_fault fl)
            (tx_body fl sid now
               (toRemove existingResults newResults)
               (toAdd existingResults newResults)
               (toUpdate now existingResults newResults))
            st)"

section \<open>The scan orchestrator (app/api/scans/route.ts)\<close>

record complianceOptions =
  wcagLevel :: string
  section508 :: bool
  bestPractices :: bool
  experimental :: bool

record summary =
  critical :: int
  serious :: int
  moderate :: int
  minor :: int
  total :: int

text \<open>What an analysis returns: \<open>{ results, summary }\<close>.\<close>

record analysis =
  results :: "finding list"
  summary :: summary

text \<open>
  The three analysis strategies, \<open>lib/simple-checker\<close>, \<open>lib/playwright-axe\<close> and
  \<open>lib/html-validator\<close>, are parameters: each returns an analysis or throws. The
  Playwright strategy also receives \<open>captureScreenshots\<close>.
\<close>

record adapters =
  simpleAnalyze :: "string \<Rightarrow> complianceOptions \<Rightarrow> thrown + analysis"
  playwrightAnalyze :: "string \<Rightarrow> complianceOptions \<Rightarrow> bool \<Rightarrow> thrown + analysis"
  htmlAnalyze :: "string \<Rightarrow> complianceOptions \<Rightarrow> thrown + analysis"

text \<open>
  \<open>prisma.scan.update({ where: { id }, data })\<close>: the data is the function that
  rewrites the row; \<open>updatedAt\<close> is set by the store. The call returns the row as
  it was written, and throws when there is no row with this id.
\<close>

fun update_scan_row :: "nat \<Rightarrow> (scan \<Rightarrow> scan) \<Rightarrow> scan list \<Rightarrow> (scan \<times> scan list) option" where
  "update_scan_row i d [] = None"
| "update_scan_row i d (s # ss) =
     (if scan_id s = i then Some (d s, d s # ss)
      else map_option (\<lambda>(s', ss'). (s', s # ss')) (update_scan_row i d ss))"

definition scan_update ::
  "thrown option \<Rightarrow> nat \<Rightarrow> int \<Rightarrow> (scan \<Rightarrow> scan) \<Rightarrow> store \<Rightarrow> thrown + scan \<times> store" where
  "scan_update fault i now d st =
     (case fault of Some e \<Rightarrow> Inl e
      | None \<Rightarrow>
          (case update_scan_row i (\<lambda>s. (d s)\<lparr>scan_updatedAt := now\<rparr>) (scan_table st) of
             None \<Rightarrow> Inl (Error ''PrismaClientKnownRequestError'' ''Record to update not found.'')
           | Some (s, ss) \<Rightarrow> Inr (s, st\<lparr>scan_table := ss\<rparr>)))"

text \<open>
  \<open>prisma.scan.create({ data })\<close> with the project, the url, the status and
  \<open>startedAt\<close>; the other columns take their defaults.
\<close>

definition scan_create ::
  "thrown option \<Rightarrow> int \<Rightarrow> nat \<Rightarrow> string \<Rightarrow> string \<Rightarrow> int option \<Rightarrow> store
   \<Rightarrow> thrown + scan \<times> store" where
  "scan_create fault now pid u stat started st =
     (case fault of Some e \<Rightarrow> Inl e
      | None \<Rightarrow>
          (let s = \<lparr>scan_id = nextId st, projectId = pid, scan_url = u, status = stat,
                     startedAt = started, completedAt = None, error = None,
                     totalIssues = None, criticalIssues = None, seriousIssues = None,
                     moderateIssues = None, minorIssues = None, analysisMethod = None,
                     scan_createdAt = now, scan_updatedAt = now\<rparr>
           in Inr (s, st\<lparr>scan_table := scan_table st @ [s], nextId := nextId st + 1\<rparr>)))"

text \<open>
  The fallback chain of \<open>processScan\<close> (lines 87 to 122): the analysis and the name
  of the strategy that produced it, or the error that is thrown when the three
  strategies have failed; and, second, the strategies that were called, in order.
\<close>

definition analyze ::
  "adapters \<Rightarrow> string \<Rightarrow> complianceOptions \<Rightarrow> (thrown + analysis \<times> string) \<times> string list" where
  "analyze ad u opts =
     (case simpleAnalyze ad u opts of
        Inr a \<Rightarrow> (Inr (a, ''simple''), [''simple''])
      | Inl simpleError \<Rightarrow>
          (case playwrightAnalyze ad u opts False of
             Inr a \<Rightarrow> (Inr (a, ''playwright''), [''simple'', ''playwright''])
           | Inl playwrightError \<Rightarrow>
               (case htmlAnalyze ad u opts of
                  Inr a \<Rightarrow>
                    (Inr (a, ''html-validator''), [''simple'', ''playwright'', ''html-validator''])
                | Inl htmlError \<Rightarrow>
                    (Inl (Error ''Error''
                           (''All analysis methods failed: Simple: '' @ toString simpleError
                            @ '', Playwright: '' @ toString playwrightError
                            @ '', HTML: '' @ toString htmlError)),
                     [''simple'', ''playwright'', ''html-validator'']))))"

text \<open>The data of the two status writes.\<close>

definition completed_data :: "int \<Rightarrow> analysis \<Rightarrow> string \<Rightarrow> scan \<Rightarrow> scan" where
  "completed_data now a method s =
     s\<lparr>status := ''completed'', completedAt := Some now,
       totalIssues := Some (total (summary a)),
       criticalIssues := Some (critical (summary a)),
       seriousIssues := Some (serious (summary a)),
       moderateIssues := Some (moderate (summary a)),
       minorIssues := Some (minor (summary a)),
       analysisMethod := Some method\<rparr>"

definition failed_data :: "int \<Rightarrow> thrown \<Rightarrow> scan \<Rightarrow> scan" where
  "failed_data now e s =
     s\<lparr>status := ''failed'', completedAt := Some now, error := Some (message_of e)\<rparr>"

text \<open>Lines 124 to 150: the results are reconciled or saved.\<close>

definition save_results ::
  "faults \<Rightarrow> int \<Rightarrow> nat \<Rightarrow> bool \<Rightarrow> finding list \<Rightarrow> store \<Rightarrow> thrown option \<times> store" where
  "save_results fl now sid isRescan rs st =
     (if isRescan then handleRescanDiff fl now sid rs st
      else if rs \<noteq> []
        then (case createMany (result_createMany_fault fl) sid now (map data_of rs) st of
                Inl e \<Rightarrow> (Some e, st)
              | Inr st' \<Rightarrow> (None, st'))
      else (None, st))"

text \<open>
  The \<open>try\<close> block of \<open>processScan\<close>: what it throws, if it throws, and the store at
  that moment.
\<close>

definition try_block ::
  "faults \<Rightarrow> adapters \<Rightarrow> int \<Rightarrow> nat \<Rightarrow> string \<Rightarrow> complianceOptions \<Rightarrow> bool \<Rightarrow> store
   \<Rightarrow> thrown option \<times> store" where
  "try_block fl ad now sid u opts isRescan st =
     (case fst (analyze ad u opts) of
        Inl e \<Rightarrow> (Some e, st)
      | Inr (analysisResult, method) \<Rightarrow>
          (case save_results fl now sid isRescan (results analysisResult) st of
             (Some e, st1) \<Rightarrow> (Some e, st1)
           | (None, st1) \<Rightarrow>
               (case scan_update (scan_update_completed_fault fl) sid now
                       (completed_data now analysisResult method) st1 of
                  Inl e \<Rightarrow> (Some e, st1)
                | Inr (s, st2) \<Rightarrow> (None, st2))))"

text \<open>
  \<open>processScan\<close>: the \<open>catch\<close> block writes the status \<open>failed\<close> and throws the error
  again; when that write throws, its error is the one that leaves the function.
  The result is the rejection of the promise, if any, and the store.
\<close>

definition processScan ::
  "faults \<Rightarrow> adapters \<Rightarrow> int \<Rightarrow> nat \<Rightarrow> string \<Rightarrow> complianceOptions \<Rightarrow> bool \<Rightarrow> store
   \<Rightarrow> thrown option \<times> store" where
  "processScan fl ad now sid u opts isRescan st =
     (case try_block fl ad now sid u opts isRescan st of
        (None, st1) \<Rightarrow> (None, st1)
      | (Some e, st1) \<Rightarrow>
          (case scan_update (scan_update_failed_fault fl) sid now (failed_data now e) st1 of
             Inl e' \<Rightarrow> (Some e', st1)
           | Inr (s, st2) \<Rightarrow> (Some e, st2)))"

text \<open>
  The body of a request to \<open>POST /api/scans\<close>. A property is \<open>None\<close> when it is
  absent; \<open>!url\<close> also holds of the empty string.
\<close>

record scan_request =
  req_projectId :: "nat option"
  req_url :: "string option"
  req_complianceOptions :: "complianceOptions option"
  req_scanId :: "nat option"

text \<open>The background task that a request leaves behind: the arguments of \<open>processScan\<close>.\<close>

record task =
  task_scanId :: nat
  task_url :: string
  task_options :: complianceOptions
  task_isRescan :: bool

datatype 'a response = Json 'a | Failure nat string

definition default_options :: complianceOptions where
  "default_options =
     \<lparr>wcagLevel = ''aa'', section508 = False, bestPractices = True, experimental = False\<rparr>"

definition reset_data :: "int \<Rightarrow> string \<Rightarrow> scan \<Rightarrow> scan" where
  "reset_data now u s =
     s\<lparr>status := ''in_progress'', scan_url := u, startedAt := Some now,
       completedAt := None, error := None, totalIssues := None,
       criticalIssues := None, seriousIssues := None, moderateIssues := None,
       minorIssues := None, analysisMethod := None\<rparr>"

definition find_scan :: "nat \<Rightarrow> store \<Rightarrow> scan option" where
  "find_scan i st = find (\<lambda>s. scan_id s = i) (scan_table st)"

text \<open>
  \<open>POST\<close> of \<open>app/api/scans/route.ts\<close>, up to the response: the response, the store,
  and the task that was started, which the handler does not wait for. A request
  whose body is not JSON is \<open>None\<close>.
\<close>

definition POST_scans ::
  "faults \<Rightarrow> int \<Rightarrow> scan_request option \<Rightarrow> store \<Rightarrow> scan response \<times> store \<times> task option" where
  "POST_scans fl now request st =
     (case request of
        None \<Rightarrow> (Failure 500 ''Failed to create scan'', st, None)
      | Some body \<Rightarrow>
          (case (req_projectId body, req_url body) of
             (Some pid, Some u) \<Rightarrow>
               (if u = [] then (Failure 400 ''Project ID and URL are required'', st, None)
                else
                  (case (case req_scanId body of
                           Some sid \<Rightarrow>
                             scan_update (scan_update_reset_fault fl) sid now (reset_data now u) st
                         | None \<Rightarrow>
                             scan_create (scan_create_fault fl) now pid u ''in_progress'' (Some now) st) of
                     Inl e \<Rightarrow> (Failure 500 ''Failed to create scan'', st, None)
                   | Inr (s, st') \<Rightarrow>
                       (Json s, st',
                        Some \<lparr>task_scanId = scan_id s, task_url = u,
                              task_options =
                                (case req_complianceOptions body of
                                   None \<Rightarrow> default_options | Some opts \<Rightarrow> opts),
                              task_isRescan = (req_scanId body \<noteq> None)\<rparr>)))
           | _ \<Rightarrow> (Failure 400 ''Project ID and URL are required'', st, None)))"

text \<open>
  The task, run to its end: \<open>processScan\<close> and the handler that \<open>POST\<close> attaches to its
  promise (lines 60 to 71), which writes the status \<open>failed\<close> once more and only
  logs what that write throws.
\<close>

definition run_task :: "faults \<Rightarrow> adapters \<Rightarrow> int \<Rightarrow> task \<Rightarrow> store \<Rightarrow> store" where
  "run_task fl ad now t st =
     (case processScan fl ad now (task_scanId t) (task_url t) (task_options t)
             (task_isRescan t) st of
        (None, st1) \<Rightarrow> st1
      | (Some e, st1) \<Rightarrow>
          (case scan_update (scan_update_failed_POST_fault fl) (task_scanId t) now
                  (failed_data now e) st1 of
             Inl e' \<Rightarrow> st1
           | Inr (s, st2) \<Rightarrow> st2))"

section \<open>Rescan of a project (app/api/projects/[id]/rescan/route.ts)\<close>

text \<open>
  The project as \<open>findUnique\<close> loads it: its urls, and its scans in the order that
  the query asks for, the most recently created first.
\<close>

record project =
  project_id :: nat
  project_complianceOptions :: "complianceOptions option"
  urls :: "string list"
  scans :: "scan list"

record rescan_entry =
  entry_id :: nat
  entry_url :: string
  entry_status :: string

record rescan_body =
  body_success :: bool
  body_message :: string
  body_scans :: "rescan_entry list"

text \<open>The request that the timer of a url sends to \<open>POST /api/scans\<close>.\<close>

definition scanData :: "project \<Rightarrow> string \<Rightarrow> nat option \<Rightarrow> scan_request" where
  "scanData p u sid =
     \<lparr>req_projectId = Some (project_id p), req_url = Some u,
      req_complianceOptions =
        Some (case project_complianceOptions p of None \<Rightarrow> default_options | Some opts \<Rightarrow> opts),
      req_scanId = sid\<rparr>"

text \<open>\<open>project.scans.find(scan => scan.url === urlRecord.url)\<close>: the latest scan of a url.\<close>

definition existingScan :: "project \<Rightarrow> string \<Rightarrow> scan option" where
  "existingScan p u = find (\<lambda>s. scan_url s = u) (scans p)"

text \<open>
  The callback of \<open>project.urls.map\<close> for one url (lines 49 to 104): the entry of
  the response and the request that was scheduled, or what the callback throws.
  The fault is the one of \<open>prisma.scan.create\<close> (line 60).
\<close>

definition rescan_url ::
  "thrown option \<Rightarrow> int \<Rightarrow> project \<Rightarrow> string \<Rightarrow> store
   \<Rightarrow> (thrown + rescan_entry \<times> scan_request) \<times> store" where
  "rescan_url fault now p u st =
     (case existingScan p u of
        Some s \<Rightarrow>
          (Inr (\<lparr>entry_id = scan_id s, entry_url = u, entry_status = ''rescanning''\<rparr>,
                scanData p u (Some (scan_id s))), st)
      | None \<Rightarrow>
          (case scan_create fault now (project_id p) u ''pending'' None st of
             Inl e \<Rightarrow> (Inl e, st)
           | Inr (newScan, st') \<Rightarrow>
               (Inr (\<lparr>entry_id = scan_id newScan, entry_url = u, entry_status = ''pending''\<rparr>,
                     scanData p u None), st')))"

text \<open>
  The callbacks of all the urls. A callback that throws rejects \<open>Promise.all\<close>, and
  the other callbacks still run to their end.
\<close>

fun rescan_urls ::
  "(string \<Rightarrow> thrown option) \<Rightarrow> int \<Rightarrow> project \<Rightarrow> string list \<Rightarrow> store
   \<Rightarrow> (thrown + rescan_entry \<times> scan_request) list \<times> store" where
  "rescan_urls fault now p [] st = ([], st)"
| "rescan_urls fault now p (u # us) st =
     (case rescan_url (fault u) now p u st of
        (r, st1) \<Rightarrow> (case rescan_urls fault now p us st1 of (rs, st2) \<Rightarrow> (r # rs, st2)))"

definition pendingScans :: "project \<Rightarrow> scan list" where
  "pendingScans p =
     filter (\<lambda>s. status s = ''pending'' \<or> status s = ''in_progress'') (scans p)"

definition conflict_message :: string where
  "conflict_message =
     ''Cannot rescan while there are pending or in-progress scans. ''
     @ ''Please wait for them to complete.''"

text \<open>
  \<open>POST\<close> of the rescan route: the response, the store and the requests that were
  scheduled. The answer of \<open>findUnique\<close> is what it throws, \<open>null\<close> or the project.
\<close>

definition POST_rescan ::
  "(string \<Rightarrow> thrown option) \<Rightarrow> int \<Rightarrow> thrown + project option \<Rightarrow> store
   \<Rightarrow> rescan_body response \<times> store \<times> scan_request list" where
  "POST_rescan fault now answer st =
     (case answer of
        Inl e \<Rightarrow> (Failure 500 ''Failed to rescan project'', st, [])
      | Inr None \<Rightarrow> (Failure 404 ''Project not found'', st, [])
      | Inr (Some p) \<Rightarrow>
          (if urls p = [] then (Failure 400 ''Project has no URLs to scan'', st, [])
           else if pendingScans p \<noteq> []
             then (Failure 409 conflict_message, st, [])
           else
             (case rescan_urls fault now p (urls p) st of
                (rs, st') \<Rightarrow>
                  (if list_ex isl rs then Failure 500 ''Failed to rescan project''
                   else Json \<lparr>body_success = True,
                              body_message =
                                ''Started rescanning '' @ show_nat (length rs) @ '' URLs'',
                              body_scans = map (\<lambda>r. fst (projr r)) rs\<rparr>,
                   st', map (\<lambda>r. snd (projr r)) (filter (\<lambda>r. \<not> isl r) rs)))))"

text \<open>
  A request that a timer of the rescan route sends (line 89), handled to its
  end: \<open>POST\<close> of \<open>/api/scans\<close>, and then the task that it started.
\<close>

definition handle_request :: "faults \<Rightarrow> adapters \<Rightarrow> int \<Rightarrow> scan_request \<Rightarrow> store \<Rightarrow> store" where
  "handle_request fl ad now req st =
     (case POST_scans fl now (Some req) st of
        (response, st', Some t) \<Rightarrow> run_task fl ad now t st'
      | (response, st', None) \<Rightarrow> st')"

section \<open>Results of a project (app/api/projects/[id]/results/route.ts)\<close>

text \<open>
  The parameters of the query string, as lines 11 to 16 read them. What
  \<open>parseInt\<close> returns is an integer or \<open>NaN\<close>, which is \<open>None\<close>; the lists are what
  \<open>split\<close> returns, or empty when the parameter is absent.
\<close>

record results_query =
  page :: "int option"
  pageSize :: "int option"
  sortBy :: string
  search :: string
  severityFilters :: "string list"
  complianceFilters :: "string list"

record scan_info =
  info_id :: nat
  info_createdAt :: int
  info_project :: nat

text \<open>
  The body of the response. A number that is \<open>NaN\<close> or infinite is written \<open>null\<close>
  by \<open>JSON.stringify\<close>, and is \<open>None\<close>.
\<close>

record results_body =
  body_results :: "(result \<times> scan_info option) list"
  body_summary :: summary
  body_total :: int
  body_page :: "int option"
  body_pageSize :: "int option"
  body_totalPages :: "int option"

text \<open>
  \<open>prisma.scan.findMany\<close> (line 19): the completed scans of the project, the most
  recently created first, each with its results.
\<close>

definition completed_scans :: "nat \<Rightarrow> store \<Rightarrow> (scan \<times> result list) list" where
  "completed_scans pid st =
     map (\<lambda>s. (s, filter (\<lambda>r. scanId r = scan_id s) (result_table st)))
         (sort_key (\<lambda>s. - scan_createdAt s)
            (filter (\<lambda>s. projectId s = pid \<and> status s = ''completed'') (scan_table st)))"

definition allResults :: "(scan \<times> result list) list \<Rightarrow> result list" where
  "allResults scs = concat (map snd scs)"

text \<open>The deduplication map (lines 47 to 57), built by \<open>forEach\<close>.\<close>

definition dedup_step :: "(string \<times> result) list \<Rightarrow> result \<Rightarrow> (string \<times> result) list" where
  "dedup_step m r =
     (case Map_get m (createKey r) of
        None \<Rightarrow> Map_set m (createKey r) r
      | Some kept \<Rightarrow> if createdAt r > createdAt kept then Map_set m (createKey r) r else m)"

definition deduplicationMap :: "result list \<Rightarrow> (string \<times> result) list" where
  "deduplicationMap rs = foldl dedup_step [] rs"

text \<open>\<open>String.prototype.includes\<close>\<close>

fun starts_with :: "string \<Rightarrow> string \<Rightarrow> bool" where
  "starts_with s [] = True"
| "starts_with [] (c # t) = False"
| "starts_with (d # s) (c # t) = (d = c \<and> starts_with s t)"

fun string_includes :: "string \<Rightarrow> string \<Rightarrow> bool" where
  "string_includes [] t = (t = [])"
| "string_includes (c # s) t = (starts_with (c # s) t \<or> string_includes s t)"

text \<open>
  \<open>x && x.toLowerCase().includes(q)\<close> on a nullable column.
  \<open>String.prototype.toLowerCase\<close> follows the case mappings of Unicode and is a
  parameter.
\<close>

fun includes_opt :: "(string \<Rightarrow> string) \<Rightarrow> string optional \<Rightarrow> string \<Rightarrow> bool" where
  "includes_opt toLowerCase (Value s) q = (s \<noteq> [] \<and> string_includes (toLowerCase s) q)"
| "includes_opt toLowerCase Null q = False"
| "includes_opt toLowerCase Undefined q = False"

definition matches_search :: "(string \<Rightarrow> string) \<Rightarrow> string \<Rightarrow> result \<Rightarrow> bool" where
  "matches_search toLowerCase q r =
     (string_includes (toLowerCase (message r)) (toLowerCase q)
      \<or> string_includes (toLowerCase (url r)) (toLowerCase q)
      \<or> includes_opt toLowerCase (element r) (toLowerCase q)
      \<or> includes_opt toLowerCase (help' r) (toLowerCase q))"

text \<open>The three filters (lines 63 to 83).\<close>

definition apply_filters ::
  "(string \<Rightarrow> string) \<Rightarrow> results_query \<Rightarrow> result list \<Rightarrow> result list" where
  "apply_filters toLowerCase q rs =
     (let rs1 = (if search q \<noteq> [] then filter (matches_search toLowerCase (search q)) rs
                 else rs);
          rs2 = (if severityFilters q \<noteq> []
                 then filter (\<lambda>r. severity r \<in> set (severityFilters q)) rs1 else rs1)
      in if complianceFilters q \<noteq> []
         then filter (\<lambda>r. list_ex (\<lambda>tag. tag \<in> set (complianceFilters q)) (tags r)) rs2
         else rs2)"

definition severityOrder :: "string \<Rightarrow> int" where
  "severityOrder s =
     (if s = ''critical'' then 4 else if s = ''serious'' then 3
      else if s = ''moderate'' then 2 else if s = ''minor'' then 1 else 0)"

text \<open>
  The comparator of the sort (lines 86 to 101). \<open>String.prototype.localeCompare\<close>
  depends on the locale of the server and is a parameter.
\<close>

definition compare_results ::
  "(string \<Rightarrow> string \<Rightarrow> int) \<Rightarrow> string \<Rightarrow> result \<Rightarrow> result \<Rightarrow> int" where
  "compare_results localeCompare by a b =
     (if by = ''severity''
      then (if severityOrder (severity a) \<noteq> severityOrder (severity b)
            then severityOrder (severity b) - severityOrder (severity a)
            else createdAt b - createdAt a)
      else if by = ''url'' then localeCompare (url a) (url b)
      else createdAt b - createdAt a)"

text \<open>
  \<open>Array.prototype.sort\<close> is stable: with a comparator that is a consistent order
  it returns what a stable insertion sort returns.
\<close>

fun insert_sorted :: "('a \<Rightarrow> 'a \<Rightarrow> int) \<Rightarrow> 'a \<Rightarrow> 'a list \<Rightarrow> 'a list" where
  "insert_sorted cmp x [] = [x]"
| "insert_sorted cmp x (y # ys) =
     (if cmp x y \<le> 0 then x # y # ys else y # insert_sorted cmp x ys)"

definition Array_sort :: "('a \<Rightarrow> 'a \<Rightarrow> int) \<Rightarrow> 'a list \<Rightarrow> 'a list" where
  "Array_sort cmp xs = foldr (insert_sorted cmp) xs []"

text \<open>
  The arithmetic of lines 114 to 116 on numbers that may be \<open>NaN\<close>: an operation
  with an operand that is \<open>NaN\<close> yields \<open>NaN\<close>.
\<close>

definition startIndex :: "results_query \<Rightarrow> int option" where
  "startIndex q =
     (case (page q, pageSize q) of (Some p, Some sz) \<Rightarrow> Some ((p - 1) * sz) | _ \<Rightarrow> None)"

definition endIndex :: "results_query \<Rightarrow> int option" where
  "endIndex q =
     (case (startIndex q, pageSize q) of (Some i, Some sz) \<Rightarrow> Some (i + sz) | _ \<Rightarrow> None)"

text \<open>
  \<open>Array.prototype.slice(start, end)\<close>: an index that is \<open>NaN\<close> counts as \<open>0\<close>, a
  negative index counts from the end.
\<close>

definition slice :: "'a list \<Rightarrow> int option \<Rightarrow> int option \<Rightarrow> 'a list" where
  "slice xs start end' =
     (let len = int (length xs);
          relativeStart = (case start of None \<Rightarrow> 0 | Some i \<Rightarrow> i);
          relativeEnd = (case end' of None \<Rightarrow> 0 | Some i \<Rightarrow> i);
          from = (if relativeStart < 0 then max (len + relativeStart) 0
                  else min relativeStart len);
          to = (if relativeEnd < 0 then max (len + relativeEnd) 0 else min relativeEnd len)
      in take (nat (to - from)) (drop (nat from) xs))"

definition count_severity :: "string \<Rightarrow> result list \<Rightarrow> int" where
  "count_severity s rs = int (length (filter (\<lambda>r. severity r = s) rs))"

text \<open>
  \<open>Math.ceil(totalResults / pageSize)\<close>: the quotient by \<open>NaN\<close> or by zero is not a
  finite number.
\<close>

definition totalPages :: "int \<Rightarrow> int option \<Rightarrow> int option" where
  "totalPages n sz =
     (case sz of None \<Rightarrow> None
      | Some k \<Rightarrow> if k = 0 then None else Some (- ((- n) div k)))"

definition scan_info_of :: "(scan \<times> result list) list \<Rightarrow> result \<Rightarrow> scan_info option" where
  "scan_info_of scs r =
     map_option (\<lambda>(s, rs). \<lparr>info_id = scan_id s, info_createdAt = scan_createdAt s,
                              info_project = projectId s\<rparr>)
       (find (\<lambda>(s, rs). list_ex (\<lambda>r'. id' r' = id' r) rs) scs)"

text \<open>The results after deduplication, filtering and sorting (lines 60 to 101).\<close>

definition uniqueResults ::
  "(string \<Rightarrow> string) \<Rightarrow> (string \<Rightarrow> string \<Rightarrow> int) \<Rightarrow> results_query
   \<Rightarrow> (scan \<times> result list) list \<Rightarrow> result list" where
  "uniqueResults toLowerCase localeCompare q scs =
     Array_sort (compare_results localeCompare (sortBy q))
       (apply_filters toLowerCase q (map snd (deduplicationMap (allResults scs))))"

text \<open>\<open>GET\<close> of the results route; the fault is the one of \<open>findMany\<close>.\<close>

definition GET_results ::
  "thrown option \<Rightarrow> (string \<Rightarrow> string) \<Rightarrow> (string \<Rightarrow> string \<Rightarrow> int) \<Rightarrow> results_query
   \<Rightarrow> nat \<Rightarrow> store \<Rightarrow> results_body response" where
  "GET_results fault toLowerCase localeCompare q pid st =
     (case fault of
        Some e \<Rightarrow> Failure 500 ''Failed to get project results''
      | None \<Rightarrow>
          (let scs = completed_scans pid st
           in if scs = []
              then Json \<lparr>body_results = [],
                         body_summary = \<lparr>critical = 0, serious = 0, moderate = 0, minor = 0,
                                          total = 0\<rparr>,
                         body_total = 0, body_page = page q, body_pageSize = pageSize q,
                         body_totalPages = Some 0\<rparr>
              else
                (let rs = uniqueResults toLowerCase localeCompare q scs
                 in Json \<lparr>body_results =
                             map (\<lambda>r. (r, scan_info_of scs r))
                                 (slice rs (startIndex q) (endIndex q)),
                           body_summary =
                             \<lparr>critical = count_severity ''critical'' rs,
                              serious = count_severity ''serious'' rs,
                              moderate = count_severity ''moderate'' rs,
                              minor = count_severity ''minor'' rs,
                              total = int (length rs)\<rparr>,
                           body_total = int (length rs), body_page = page q,
                           body_pageSize = pageSize q,
                           body_totalPages = totalPages (int (length rs)) (pageSize q)\<rparr>)))"

section \<open>Reading the text of a value back\<close>

text \<open>
  What follows serves to show that \<open>JSON.stringify\<close> gives different texts to
  different values: the characters of a numeral, the value of a hexadecimal
  digit, and the reading of one character of a quoted string.
\<close>

definition no_digit_ahead :: "string \<Rightarrow> bool" where
  "no_digit_ahead r = (case r of [] \<Rightarrow> True | c # _ \<Rightarrow> \<not> digit_char c)"

definition hex_value :: "char \<Rightarrow> nat" where
  "hex_value c = (if of_char c < (58::nat) then of_char c - 48 else of_char c - 87)"

definition short_escape :: "char \<Rightarrow> char" where
  "short_escape k =
     (if k = CHR ''b'' then CHR 0x08 else if k = CHR ''t'' then CHR 0x09
      else if k = CHR ''n'' then CHR 0x0A else if k = CHR ''f'' then CHR 0x0C
      else if k = CHR ''r'' then CHR 0x0D else k)"

definition unescape_char :: "string \<Rightarrow> char \<times> string" where
  "unescape_char s =
     (case s of
        [] \<Rightarrow> (CHR 0x00, [])
      | c # r \<Rightarrow>
          if c \<noteq> CHR 0x5C then (c, r)
          else (case r of
                  [] \<Rightarrow> (c, [])
                | k # t \<Rightarrow>
                    if k = CHR ''u''
                    then (char_of (16 * hex_value (t ! 2) + hex_value (t ! 3)), drop 4 t)
                    else (short_escape k, t)))"

text \<open>The first character of the text of a value tells what kind of value it is.\<close>

definition opens_with :: "json \<Rightarrow> char \<Rightarrow> bool" where
  "opens_with v c =
     (case v of
        JNull \<Rightarrow> c = CHR ''n''
      | JBool b \<Rightarrow> c = CHR ''t'' \<or> c = CHR ''f''
      | JNum i \<Rightarrow> c = CHR ''-'' \<or> digit_char c
      | JStr s \<Rightarrow> c = CHR 0x22
      | JArr xs \<Rightarrow> c = CHR ''[''
      | JObj ps \<Rightarrow> c = CHR ''{'')"

section \<open>The reconciliation in the words of the specification\<close>

text \<open>
  The identity key of a finding is the tuple of its url, its message, its
  element, or the empty text when it has none, and its severity.
\<close>

definition identity :: "'a finding_scheme \<Rightarrow> string \<times> string \<times> string \<times> string" where
  "identity r = (url r, message r, or_empty (element r), severity r)"












section \<open>The reconciliation by keys\<close>

text \<open>
  The same lists with the key of \<open>createKey\<close> in the place of the identity and with
  the comparison of \<open>JSON.stringify\<close> in the place of the comparison of values.
\<close>

definition spec_toAdd :: "result list \<Rightarrow> finding list \<Rightarrow> finding list" where
  "spec_toAdd R1 R2 = filter (\<lambda>n. createKey n \<notin> set (map createKey R1)) R2"

definition spec_toRemove :: "result list \<Rightarrow> finding list \<Rightarrow> nat list" where
  "spec_toRemove R1 R2 = map id' (filter (\<lambda>e. createKey e \<notin> set (map createKey R2)) R1)"

text \<open>
  A field is written differently in a stored row and in a fresh finding: the
  JavaScript values are not the same, \<open>undefined\<close> being another value than \<open>null\<close>
  and an object another value than the object with the same members in another
  order.
\<close>

fun differs :: "field \<Rightarrow> result \<Rightarrow> finding \<Rightarrow> bool" where
  "differs F_help e n = (help' e \<noteq> help' n)"
| "differs F_impact e n = (impact e \<noteq> impact n)"
| "differs F_tags e n = (tags e \<noteq> tags n)"
| "differs F_elementPath e n = (elementPath e \<noteq> elementPath n)"
| "differs F_details e n = (details e \<noteq> details n)"

definition spec_patch :: "result \<Rightarrow> finding \<Rightarrow> (field \<times> json option) list" where
  "spec_patch e n =
     map (\<lambda>f. (f, get_field f n))
         (filter (\<lambda>f. differs f e n) [F_help, F_impact, F_tags, F_elementPath, F_details])"


text \<open>The last element of a list that has a given key.\<close>

definition last_with_key :: "string \<Rightarrow> 'a finding_scheme list \<Rightarrow> 'a finding_scheme option" where
  "last_with_key k xs = find (\<lambda>r. createKey r = k) (rev xs)"

text \<open>
  A list with one element for each key: the last element that has the key, at
  the place where the key occurs first.
\<close>

fun collapse :: "'a finding_scheme list \<Rightarrow> 'a finding_scheme list" where
  "collapse [] = []"
| "collapse (x # xs) =
     (case last_with_key (createKey x) xs of None \<Rightarrow> x | Some y \<Rightarrow> y)
       # collapse (filter (\<lambda>r. createKey r \<noteq> createKey x) xs)"

text \<open>
  The patch of a stored row against the last fresh finding that has its key, if
  there is one and it brings a change.
\<close>

definition patch_of :: "int \<Rightarrow> finding list \<Rightarrow> result \<Rightarrow> (nat \<times> updates) list" where
  "patch_of now R2 e =
     (case last_with_key (createKey e) R2 of
        None \<Rightarrow> []
      | Some n \<Rightarrow>
          if changes e n = [] then []
          else [(id' e, \<lparr>changed = changes e n, u_updatedAt = now\<rparr>)])"

section \<open>The frame of a patch\<close>

text \<open>
  The fields of a row that a rescan never writes: two rows with the same
  identity differ at most in help, impact, tags, elementPath, details and
  \<open>updatedAt\<close>.
\<close>

definition same_identity :: "result \<Rightarrow> result \<Rightarrow> bool" where
  "same_identity e e' =
     (id' e' = id' e \<and> createdAt e' = createdAt e \<and> scanId e' = scanId e
      \<and> url e' = url e \<and> message e' = message e \<and> element e' = element e
      \<and> severity e' = severity e)"

text \<open>
  A field of the row \<open>e'\<close> is the one of \<open>e\<close>, or it differs between \<open>e\<close> and the
  fresh finding \<open>n\<close> and is the one of \<open>n\<close>, as its column holds it.
\<close>

definition kept_or_changed :: "finding \<Rightarrow> result \<Rightarrow> result \<Rightarrow> field \<Rightarrow> bool" where
  "kept_or_changed n e e' f =
     (if get_field f e' = get_field f e then True
      else differs f e n \<and> get_field f e' = stored_value f (get_field f n))"

definition patched_by :: "finding \<Rightarrow> int \<Rightarrow> result \<Rightarrow> result \<Rightarrow> bool" where
  "patched_by n now e e' =
     (list_all (kept_or_changed n e e') [F_help, F_impact, F_tags, F_elementPath, F_details]
      \<and> (if e' = e then True else updatedAt e' = now))"

section \<open>The fallback in the words of the specification\<close>

text \<open>The strategies in their order of preference, each with what it returned or threw.\<close>

definition strategies ::
  "adapters \<Rightarrow> string \<Rightarrow> complianceOptions \<Rightarrow> (string \<times> (thrown + analysis)) list" where
  "strategies ad u opts =
     [(''simple'', simpleAnalyze ad u opts),
      (''playwright'', playwrightAnalyze ad u opts False),
      (''html-validator'', htmlAnalyze ad u opts)]"

text \<open>The first strategy of a list that did not fail, with its analysis.\<close>

fun first_success :: "(string \<times> (thrown + analysis)) list \<Rightarrow> (analysis \<times> string) option" where
  "first_success [] = None"
| "first_success ((name, Inr a) # rest) = Some (a, name)"
| "first_success ((name, Inl e) # rest) = first_success rest"

text \<open>The strategies that are tried: those up to the first that did not fail.\<close>

fun tried :: "(string \<times> (thrown + analysis)) list \<Rightarrow> string list" where
  "tried [] = []"
| "tried ((name, Inr a) # rest) = [name]"
| "tried ((name, Inl e) # rest) = name # tried rest"

text \<open>The reasons of the failures, each after the label of its strategy.\<close>

fun reasons :: "string list \<Rightarrow> (string \<times> (thrown + analysis)) list \<Rightarrow> string list" where
  "reasons (l # ls) ((name, Inl e) # rest) = (l @ '': '' @ toString e) # reasons ls rest"
| "reasons (l # ls) ((name, Inr a) # rest) = reasons ls rest"
| "reasons ls rest = []"

fun comma_space :: "string list \<Rightarrow> string" where
  "comma_space [] = []"
| "comma_space [s] = s"
| "comma_space (s # t # ss) = s @ '', '' @ comma_space (t # ss)"

definition all_failed_message :: "(string \<times> (thrown + analysis)) list \<Rightarrow> string" where
  "all_failed_message ss =
     ''All analysis methods failed: ''
     @ comma_space (reasons [''Simple'', ''Playwright'', ''HTML''] ss)"

section \<open>The rescan of a project in the words of the specification\<close>

text \<open>
  The entry of the response for a url: the scan that was found, or a scan that
  was created for the url, pending, among the rows that the route appended.
\<close>

definition found_or_created :: "project \<Rightarrow> scan list \<Rightarrow> string \<Rightarrow> rescan_entry \<Rightarrow> bool" where
  "found_or_created p created u en =
     (entry_url en = u
      \<and> (case existingScan p u of
            Some s \<Rightarrow> entry_id en = scan_id s \<and> entry_status en = ''rescanning''
          | None \<Rightarrow>
              entry_status en = ''pending''
              \<and> list_ex (\<lambda>row. scan_id row = entry_id en \<and> scan_url row = u
                            \<and> status row = ''pending'' \<and> projectId row = project_id p)
                   created))"

text \<open>
  A request to \<open>POST /api/scans\<close> that asks for the rescan of a scan of a url of the
  project, with the compliance options of the project or the default ones.
\<close>

definition rescan_of :: "project \<Rightarrow> string \<Rightarrow> scan \<Rightarrow> scan_request \<Rightarrow> bool" where
  "rescan_of p u s req =
     (req_projectId req = Some (project_id p) \<and> req_url req = Some u
      \<and> req_scanId req = Some (scan_id s)
      \<and> req_complianceOptions req =
          Some (case project_complianceOptions p of None \<Rightarrow> default_options
                | Some opts \<Rightarrow> opts))"

text \<open>
  A request starts the rescan of a scan: whenever \<open>POST /api/scans\<close> receives it
  while the row of the scan exists and the store accepts the reset, the scan is
  in progress and the task that analyses it as a rescan is started. The route
  refuses a request whose url is empty.
\<close>

definition starts_rescan :: "scan_request \<Rightarrow> string \<Rightarrow> scan \<Rightarrow> bool" where
  "starts_rescan req u s =
     (\<forall>fl now st row.
        u \<noteq> [] \<longrightarrow> scan_update_reset_fault fl = None \<longrightarrow> find_scan (scan_id s) st = Some row \<longrightarrow>
        (\<exists>s' st' t. POST_scans fl now (Some req) st = (Json s', st', Some t)
           \<and> scan_id s' = scan_id s \<and> status s' = ''in_progress''
           \<and> task_scanId t = scan_id s \<and> task_url t = u \<and> task_isRescan t))"

section \<open>Examples\<close>

text \<open>The stored finding and the two fresh findings of the example of the spec.\<close>

definition missing_alt_old :: result where
  "missing_alt_old =
     \<lparr>url = ''https://a.com'', message = ''Missing alt'', element = Value ''<img>'',
      severity = ''critical'', impact = Null, help' = Value ''old'', tags = [],
      elementPath = Null, details = Some (JObj []), createdAt = 1,
      id' = 0, scanId = 7, updatedAt = 1\<rparr>"

definition missing_alt_new :: finding where
  "missing_alt_new =
     \<lparr>url = ''https://a.com'', message = ''Missing alt'', element = Value ''<img>'',
      severity = ''critical'', impact = Null, help' = Value ''new'', tags = [],
      elementPath = Null, details = Some (JObj []), createdAt = 5\<rparr>"

definition low_contrast :: finding where
  "low_contrast =
     \<lparr>url = ''https://a.com'', message = ''Low contrast'', element = Value ''<p>'',
      severity = ''moderate'', impact = Null, help' = Null, tags = [],
      elementPath = Null, details = Some (JObj []), createdAt = 5\<rparr>"


text \<open>A finding without details.\<close>

definition no_details :: finding where
  "no_details = low_contrast\<lparr>details := None\<rparr>"



text \<open>
  A stored finding and a fresh one with different messages and elements, which
  the separator joins to the same text.
\<close>

definition link_row :: result where
  "link_row =
     \<lparr>url = ''https://a.com'', message = ''Link text'', element = Value ''a|b'',
      severity = ''minor'', impact = Null, help' = Null, tags = [],
      elementPath = Null, details = Some (JObj []), createdAt = 5,
      id' = 20, scanId = 7, updatedAt = 5\<rparr>"

definition link_finding :: finding where
  "link_finding =
     \<lparr>url = ''https://a.com'', message = ''Link text|a'', element = Value ''b'',
      severity = ''minor'', impact = Null, help' = Null, tags = [],
      elementPath = Null, details = Some (JObj []), createdAt = 6\<rparr>"






text \<open>A fault plan without faults, and a store with one row of each table.\<close>

definition no_faults :: faults where
  "no_faults =
     \<lparr>scan_update_reset_fault = None, scan_create_fault = None,
      scan_update_failed_POST_fault = None, result_createMany_fault = None,
      scan_update_completed_fault = None, scan_update_failed_fault = None,
      result_findMany_fault = None, tx_commit_fault = None, tx_deleteMany_fault = None,
      tx_createMany_fault = None, tx_update_fault = (\<lambda>i. None)\<rparr>"

definition scan_7 :: scan where
  "scan_7 =
     \<lparr>scan_id = 7, projectId = 3, scan_url = ''https://a.com'', status = ''in_progress'',
      startedAt = Some 2, completedAt = None, error = None, totalIssues = None,
      criticalIssues = None, seriousIssues = None, moderateIssues = None,
      minorIssues = None, analysisMethod = None, scan_createdAt = 1, scan_updatedAt = 2\<rparr>"

definition store_7 :: store where
  "store_7 = \<lparr>scan_table = [scan_7], result_table = [missing_alt_old], nextId = 8\<rparr>"

definition empty_7 :: store where
  "empty_7 = \<lparr>scan_table = [scan_7], result_table = [], nextId = 8\<rparr>"

text \<open>Faults of the store, and analysis strategies that work or fail.\<close>

definition db_down :: thrown where
  "db_down = Error ''PrismaClientInitializationError'' ''Can't reach database server''"

definition status_writes_fail :: faults where
  "status_writes_fail =
     no_faults\<lparr>scan_update_completed_fault := Some db_down,
               scan_update_failed_fault := Some db_down,
               scan_update_failed_POST_fault := Some db_down\<rparr>"

definition createMany_fails :: faults where
  "createMany_fails = no_faults\<lparr>tx_createMany_fault := Some db_down\<rparr>"

text \<open>The insertions of the rescan fail, and so does every later write of the status.\<close>

definition store_stays_down :: faults where
  "store_stays_down =
     createMany_fails\<lparr>scan_update_failed_fault := Some db_down,
                       scan_update_failed_POST_fault := Some db_down\<rparr>"

text \<open>The insertions of the rescan fail, and so does the write of the \<open>catch\<close> block.\<close>

definition catch_write_fails :: faults where
  "catch_write_fails = createMany_fails\<lparr>scan_update_failed_fault := Some db_down\<rparr>"

definition one_issue :: analysis where
  "one_issue =
     \<lparr>results = [low_contrast],
      summary = \<lparr>critical = 0, serious = 0, moderate = 1, minor = 0, total = 1\<rparr>\<rparr>"

definition simple_works :: adapters where
  "simple_works =
     \<lparr>simpleAnalyze = (\<lambda>u opts. Inr one_issue),
      playwrightAnalyze = (\<lambda>u opts shots. Inl (Error ''Error'' ''no browser'')),
      htmlAnalyze = (\<lambda>u opts. Inl (Error ''Error'' ''no parser''))\<rparr>"

definition playwright_works :: adapters where
  "playwright_works =
     \<lparr>simpleAnalyze = (\<lambda>u opts. Inl (Error ''Error'' ''timeout'')),
      playwrightAnalyze = (\<lambda>u opts shots. Inr one_issue),
      htmlAnalyze = (\<lambda>u opts. Inl (Error ''Error'' ''no parser''))\<rparr>"

definition nothing_works :: adapters where
  "nothing_works =
     \<lparr>simpleAnalyze = (\<lambda>u opts. Inl (Error ''Error'' ''timeout'')),
      playwrightAnalyze = (\<lambda>u opts shots. Inl (Error ''Error'' ''no browser'')),
      htmlAnalyze = (\<lambda>u opts. Inl (NonError ''404''))\<rparr>"

definition task_7 :: task where
  "task_7 = \<lparr>task_scanId = 7, task_url = ''https://a.com'', task_options = default_options,
             task_isRescan = False\<rparr>"

definition rescan_task_7 :: task where
  "rescan_task_7 = task_7\<lparr>task_isRescan := True\<rparr>"

text \<open>Two requests to \<open>POST /api/scans\<close>, for a rescan and for a first scan.\<close>

definition rescan_request :: scan_request where
  "rescan_request =
     \<lparr>req_projectId = Some 3, req_url = Some ''https://b.com'',
      req_complianceOptions = None, req_scanId = Some 7\<rparr>"

definition new_scan_request :: scan_request where
  "new_scan_request = rescan_request\<lparr>req_scanId := None\<rparr>"

text \<open>Projects: one with a scan in progress, one at rest, one without urls.\<close>

definition scan_7_done :: scan where
  "scan_7_done = scan_7\<lparr>status := ''completed'', completedAt := Some 4\<rparr>"

definition busy_project :: project where
  "busy_project =
     \<lparr>project_id = 3, project_complianceOptions = None, urls = [''https://a.com''],
      scans = [scan_7]\<rparr>"

definition idle_project :: project where
  "idle_project =
     \<lparr>project_id = 3, project_complianceOptions = None,
      urls = [''https://a.com'', ''https://c.com''], scans = [scan_7_done]\<rparr>"

definition no_urls_project :: project where
  "no_urls_project = busy_project\<lparr>urls := []\<rparr>"

text \<open>
  The scan that the rescan of the project at rest creates, the store of the
  project at rest, the store after the rescan of the project, and the store
  after the two requests that the rescan scheduled were handled to their end.
\<close>

definition pending_8 :: scan where
  "pending_8 =
     \<lparr>scan_id = 8, projectId = 3, scan_url = ''https://c.com'', status = ''pending'',
      startedAt = None, completedAt = None, error = None, totalIssues = None,
      criticalIssues = None, seriousIssues = None, moderateIssues = None,
      minorIssues = None, analysisMethod = None, scan_createdAt = 9, scan_updatedAt = 9\<rparr>"

definition idle_store :: store where
  "idle_store = \<lparr>scan_table = [scan_7_done], result_table = [], nextId = 8\<rparr>"

definition after_rescan :: store where
  "after_rescan = fst (snd (POST_rescan (\<lambda>u. None) 9 (Inr (Some idle_project)) idle_store))"

definition after_requests :: store where
  "after_requests =
     foldl (\<lambda>st req. handle_request no_faults simple_works 10 req st) after_rescan
       (snd (snd (POST_rescan (\<lambda>u. None) 9 (Inr (Some idle_project)) idle_store)))"

text \<open>
  A completed scan with the two findings that the separator joins to the same
  text, and a query for the first page.
\<close>

definition links_store :: store where
  "links_store =
     \<lparr>scan_table = [scan_7_done], result_table = [link_row, new_row 7 6 21 link_finding],
      nextId = 22\<rparr>"

definition first_page :: results_query where
  "first_page =
     \<lparr>page = Some 1, pageSize = Some 10, sortBy = ''severity'', search = [],
      severityFilters = [], complianceFilters = []\<rparr>"

text \<open>
  Examples of the two functions of the platform that the results route calls:
  the comparison of two texts byte by byte, and the lowering of the letters of
  ASCII.
\<close>

fun code_unit_compare :: "string \<Rightarrow> string \<Rightarrow> int" where
  "code_unit_compare [] [] = 0"
| "code_unit_compare [] (d # t) = - 1"
| "code_unit_compare (c # s) [] = 1"
| "code_unit_compare (c # s) (d # t) =
     (if c = d then code_unit_compare s t
      else if (of_char c :: nat) < of_char d then - 1 else 1)"

definition ascii_lower :: "string \<Rightarrow> string" where
  "ascii_lower s =
     map (\<lambda>c. if 65 \<le> (of_char c :: nat) \<and> (of_char c :: nat) \<le> 90
               then char_of (of_char c + (32 :: nat)) else c) s"

section \<open>\<open>JSON.stringify\<close> is injective\<close>

lemma of_char_char_of_small: "n < 256 \<Longrightarrow> of_char (char_of (n::nat)) = n"
  by (simp add: take_bit_eq_mod)

lemma char_of_digit: "n < 10 \<Longrightarrow> digit_char (char_of (48 + n :: nat))"
  unfolding digit_char_def using of_char_char_of_small [of "48 + n"] by simp

lemma show_nat_digits: "show_nat n \<noteq> [] \<and> (\<forall>c\<in>set (show_nat n). digit_char c)"
proof (induction n rule: show_nat.induct)
  case (1 n)
  show ?case
  proof (cases "n < 10")
    case True
    then show ?thesis by (simp add: show_nat.simps [of n] char_of_digit)
  next
    case False
    with 1 show ?thesis by (simp add: show_nat.simps [of n] char_of_digit)
  qed
qed

lemma char_of_small_inj: "a < 256 \<Longrightarrow> b < 256 \<Longrightarrow> char_of (a::nat) = char_of b \<Longrightarrow> a = b"
  by (simp add: char_of_eq_iff take_bit_eq_mod)

lemma show_nat_inj: "show_nat n = show_nat m \<Longrightarrow> n = m"
proof (induction n arbitrary: m rule: show_nat.induct)
  case (1 n)
  show ?case
  proof (cases "n < 10")
    case n: True
    show ?thesis
    proof (cases "m < 10")
      case True
      with n 1(2) have "char_of (48 + n) = char_of (48 + m)"
        by (simp add: show_nat.simps [of n] show_nat.simps [of m])
      with n True show ?thesis using char_of_small_inj [of "48 + n" "48 + m"] by simp
    next
      case False
      with n 1(2) show ?thesis
        using show_nat_digits [of "m div 10"]
        by (simp add: show_nat.simps [of n] show_nat.simps [of m])
    qed
  next
    case n: False
    show ?thesis
    proof (cases "m < 10")
      case True
      with n 1(2) show ?thesis
        using show_nat_digits [of "n div 10"]
        by (simp add: show_nat.simps [of n] show_nat.simps [of m])
    next
      case False
      with n 1(2) have e: "show_nat (n div 10) = show_nat (m div 10)"
        and d: "char_of (48 + n mod 10) = char_of (48 + m mod 10)"
        by (simp_all add: show_nat.simps [of n] show_nat.simps [of m])
      from 1(1) [OF n e] have "n div 10 = m div 10" .
      moreover from d have "n mod 10 = m mod 10"
        using char_of_small_inj [of "48 + n mod 10" "48 + m mod 10"] by simp
      ultimately show ?thesis by (metis div_mult_mod_eq)
    qed
  qed
qed

lemma digits_prefix:
  assumes "\<forall>c\<in>set s. digit_char c" "\<forall>c\<in>set s'. digit_char c"
    and "no_digit_ahead r" "no_digit_ahead r'" and "s @ r = s' @ r'"
  shows "s = s' \<and> r = r'"
  using assms
proof (induction s arbitrary: s')
  case Nil
  then show ?case by (cases s') (auto simp: no_digit_ahead_def)
next
  case (Cons c s)
  then show ?case by (cases s') (auto simp: no_digit_ahead_def)
qed

lemma show_int_inj:
  assumes "no_digit_ahead r" "no_digit_ahead r'" and "show_int i @ r = show_int j @ r'"
  shows "i = j \<and> r = r'"
proof -
  have nd: "\<not> digit_char CHR ''-''" by (simp add: digit_char_def)
  have hd: "\<And>n. \<exists>c t. show_nat n = c # t \<and> digit_char c"
    using show_nat_digits by (metis list.set_intros(1) neq_Nil_conv)
  show ?thesis
  proof (cases "i < 0")
    case i: True
    show ?thesis
    proof (cases "j < 0")
      case True
      with i assms(3) have "show_nat (nat (- i)) @ r = show_nat (nat (- j)) @ r'"
        by (simp add: show_int_def)
      then have "show_nat (nat (- i)) = show_nat (nat (- j)) \<and> r = r'"
        using digits_prefix assms(1,2) show_nat_digits by blast
      with i True show ?thesis using show_nat_inj by fastforce
    next
      case False
      with i assms(3) nd hd [of "nat j"] show ?thesis by (auto simp: show_int_def)
    qed
  next
    case i: False
    show ?thesis
    proof (cases "j < 0")
      case True
      with i assms(3) nd hd [of "nat i"] show ?thesis by (auto simp: show_int_def)
    next
      case False
      with i assms(3) have "show_nat (nat i) @ r = show_nat (nat j) @ r'"
        by (simp add: show_int_def)
      then have "show_nat (nat i) = show_nat (nat j) \<and> r = r'"
        using digits_prefix assms(1,2) show_nat_digits by blast
      with i False show ?thesis using show_nat_inj by fastforce
    qed
  qed
qed

lemma hex_value_digit: "a < 16 \<Longrightarrow> hex_value (hex_digit a) = a"
proof (cases "a < 10")
  case True
  then have "hex_digit a = char_of (48 + a)" by (simp add: hex_digit_def)
  moreover have "of_char (char_of (48 + a)) = 48 + a"
    using True by (intro of_char_char_of_small) simp
  ultimately show ?thesis using True by (simp only: hex_value_def) simp
next
  case False
  assume "a < 16"
  from False have "hex_digit a = char_of (87 + a)" by (simp add: hex_digit_def)
  moreover have "of_char (char_of (87 + a)) = 87 + a"
    using \<open>a < 16\<close> by (intro of_char_char_of_small) simp
  ultimately show ?thesis using False by (simp only: hex_value_def) simp
qed

lemma control_char:
  assumes "(of_char c :: nat) < 32"
  shows "char_of (16 * hex_value (hex_digit (of_char c div 16))
                  + hex_value (hex_digit (of_char c mod 16))) = c"
proof -
  have "(of_char c :: nat) div 16 < 16" using assms by simp
  then have "16 * hex_value (hex_digit (of_char c div 16))
      + hex_value (hex_digit (of_char c mod 16)) = (of_char c :: nat)"
    by (simp add: hex_value_digit)
  then show ?thesis by simp
qed

lemma unescape_escape: "unescape_char (escape_char c @ r) = (c, r)"
proof -
  consider (special) "c \<in> {CHR 0x22, CHR 0x5C, CHR 0x08, CHR 0x09, CHR 0x0A, CHR 0x0C, CHR 0x0D}"
    | (control) "c \<notin> {CHR 0x22, CHR 0x5C, CHR 0x08, CHR 0x09, CHR 0x0A, CHR 0x0C, CHR 0x0D}"
        "(of_char c :: nat) < 32"
    | (plain) "c \<notin> {CHR 0x22, CHR 0x5C, CHR 0x08, CHR 0x09, CHR 0x0A, CHR 0x0C, CHR 0x0D}"
        "\<not> (of_char c :: nat) < 32"
    by blast
  then show ?thesis
  proof cases
    case special
    then show ?thesis
      by (auto simp: escape_char_def unescape_char_def short_escape_def)
  next
    case control
    then show ?thesis
      by (simp add: escape_char_def unescape_char_def control_char)
  next
    case plain
    then show ?thesis
      by (simp add: escape_char_def unescape_char_def)
  qed
qed

lemma escape_char_inj:
  assumes "escape_char c @ r = escape_char d @ r'"
  shows "c = d \<and> r = r'"
proof -
  have "(c, r) = unescape_char (escape_char c @ r)"
    by (simp only: unescape_escape)
  also have "\<dots> = unescape_char (escape_char d @ r')"
    by (simp only: assms)
  also have "\<dots> = (d, r')"
    by (simp only: unescape_escape)
  finally show ?thesis by simp
qed

lemma escape_char_head: "\<exists>k t. escape_char c = k # t \<and> k \<noteq> CHR 0x22"
  unfolding escape_char_def by simp

lemma escaped_inj:
  "concat (map escape_char s) @ CHR 0x22 # r = concat (map escape_char s') @ CHR 0x22 # r'
   \<Longrightarrow> s = s' \<and> r = r'"
proof (induction s arbitrary: s')
  case Nil
  show ?case
  proof (cases s')
    case Nil
    with Nil.prems show ?thesis by simp
  next
    case (Cons d t)
    with Nil.prems escape_char_head [of d] show ?thesis by auto
  qed
next
  case (Cons c s)
  show ?case
  proof (cases s')
    case Nil
    with Cons.prems escape_char_head [of c] show ?thesis by auto
  next
    case (Cons d t)
    with Cons.prems have "escape_char c @ (concat (map escape_char s) @ CHR 0x22 # r)
        = escape_char d @ (concat (map escape_char t) @ CHR 0x22 # r')"
      by simp
    from escape_char_inj [OF this] Cons.IH [of t] Cons show ?thesis by simp
  qed
qed

lemma quote_inj: "quote s @ r = quote s' @ r' \<Longrightarrow> s = s' \<and> r = r'"
  unfolding quote_def using escaped_inj [of s r s' r'] by simp

lemma commas_Cons: "commas (s # ss) = s @ (if ss = [] then [] else CHR '','' # commas ss)"
  by (cases ss) auto

lemma commas_inj:
  assumes item: "\<And>x y t t'. x \<in> set xs \<Longrightarrow> no_digit_ahead t \<Longrightarrow> no_digit_ahead t' \<Longrightarrow>
            g x @ t = g y @ t' \<Longrightarrow> x = y \<and> t = t'"
    and head: "\<And>y. \<exists>c u. g y = c # u \<and> c \<noteq> e"
    and e: "\<not> digit_char e" "e \<noteq> CHR '',''"
    and eq: "commas (map g xs) @ e # r = commas (map g ys) @ e # r'"
  shows "xs = ys \<and> r = r'"
  using item eq
proof (induction xs arbitrary: ys)
  case Nil
  show ?case
  proof (cases ys)
    case Nil
    with Nil.prems show ?thesis by simp
  next
    case (Cons y zs)
    with Nil.prems(2) head [of y] show ?thesis
      by (auto simp: commas_Cons)
  qed
next
  case (Cons x xs)
  show ?case
  proof (cases ys)
    case Nil
    with Cons.prems(2) head [of x] show ?thesis
      by (auto simp: commas_Cons)
  next
    case ys: (Cons y zs)
    let ?t = "if xs = [] then e # r else CHR '','' # commas (map g xs) @ e # r"
    let ?t' = "if zs = [] then e # r' else CHR '','' # commas (map g zs) @ e # r'"
    have c: "\<not> digit_char CHR '',''" by (simp add: digit_char_def)
    have "g x @ ?t = g y @ ?t'"
      using Cons.prems(2) ys by (auto simp: commas_Cons)
    moreover have "no_digit_ahead ?t" "no_digit_ahead ?t'"
      using e c by (simp_all add: no_digit_ahead_def)
    ultimately have xy: "x = y \<and> ?t = ?t'"
      using Cons.prems(1) [of x ?t ?t' y] by simp
    show ?thesis
    proof (cases "xs = []")
      case True
      with xy e(2) have "zs = [] \<and> r = r'" by (auto split: if_splits)
      with True xy ys show ?thesis by simp
    next
      case False
      with xy e(2) have z: "zs \<noteq> []"
        and eq': "commas (map g xs) @ e # r = commas (map g zs) @ e # r'"
        by (auto split: if_splits)
      have "xs = zs \<and> r = r'"
      proof (rule Cons.IH [OF _ eq'])
        fix a b t t'
        assume "a \<in> set xs" "no_digit_ahead t" "no_digit_ahead t'" "g a @ t = g b @ t'"
        then show "a = b \<and> t = t'"
          using Cons.prems(1) [of a t t' b] by simp
      qed
      with xy ys show ?thesis by simp
    qed
  qed
qed

lemma show_int_head: "\<exists>c t. show_int i = c # t \<and> (c = CHR ''-'' \<or> digit_char c)"
proof -
  have d: "\<exists>c t. show_nat n = c # t \<and> digit_char c" for n
    using show_nat_digits by (metis list.set_intros(1) neq_Nil_conv)
  show ?thesis
  proof (cases "i < 0")
    case True
    then show ?thesis by (simp add: show_int_def)
  next
    case False
    with d [of "nat i"] show ?thesis by (auto simp: show_int_def)
  qed
qed

lemma stringify_head: "\<exists>c t. stringify v = c # t \<and> opens_with v c"
  using show_int_head by (cases v) (auto simp: opens_with_def quote_def)

lemma opening_not_closing: "opens_with v c \<Longrightarrow> c \<noteq> CHR '']'' \<and> c \<noteq> CHR ''}'' \<and> c \<noteq> CHR '',''"
  by (cases v) (auto simp: opens_with_def digit_char_def)

lemma opening_same:
  "opens_with v c \<Longrightarrow> opens_with w c \<Longrightarrow>
     (case v of JNull \<Rightarrow> w = JNull | JBool b \<Rightarrow> (\<exists>b'. w = JBool b')
      | JNum i \<Rightarrow> (\<exists>j. w = JNum j) | JStr s \<Rightarrow> (\<exists>s'. w = JStr s')
      | JArr xs \<Rightarrow> (\<exists>ys. w = JArr ys) | JObj ps \<Rightarrow> (\<exists>qs. w = JObj qs))"
  by (cases v; cases w) (auto simp: opens_with_def digit_char_def)

lemma same_kind:
  assumes "stringify v @ r = stringify w @ r'"
  shows "case v of JNull \<Rightarrow> w = JNull | JBool b \<Rightarrow> (\<exists>b'. w = JBool b')
      | JNum i \<Rightarrow> (\<exists>j. w = JNum j) | JStr s \<Rightarrow> (\<exists>s'. w = JStr s')
      | JArr xs \<Rightarrow> (\<exists>ys. w = JArr ys) | JObj ps \<Rightarrow> (\<exists>qs. w = JObj qs)"
proof -
  obtain c t where v: "stringify v = c # t" "opens_with v c" using stringify_head by blast
  obtain d u where w: "stringify w = d # u" "opens_with w d" using stringify_head by blast
  from assms v(1) w(1) have "c = d" by simp
  with v(2) w(2) show ?thesis by (simp add: opening_same)
qed

lemma stringify_inj_aux:
  "no_digit_ahead r \<Longrightarrow> no_digit_ahead r' \<Longrightarrow> stringify v @ r = stringify w @ r'
   \<Longrightarrow> v = w \<and> r = r'"
proof (induction v arbitrary: w r r')
  case JNull
  from same_kind [OF JNull(3)] JNull(3) show ?case by simp
next
  case (JBool b)
  from same_kind [OF JBool(3)] JBool(3) show ?case by (auto split: if_splits)
next
  case (JNum i)
  from same_kind [OF JNum(3)] obtain j where "w = JNum j" by auto
  with JNum show_int_inj [of r r' i j] show ?case by simp
next
  case (JStr s)
  from same_kind [OF JStr(3)] obtain s' where "w = JStr s'" by auto
  with JStr quote_inj [of s r s' r'] show ?case by simp
next
  case (JArr xs)
  from same_kind [OF JArr(4)] obtain ys where w: "w = JArr ys" by auto
  have "xs = ys \<and> r = r'"
  proof (rule commas_inj [where g = stringify and e = "CHR '']''"])
    show "commas (map stringify xs) @ CHR '']'' # r = commas (map stringify ys) @ CHR '']'' # r'"
      using JArr(4) w by simp
    show "\<not> digit_char CHR '']''" by (simp add: digit_char_def)
    show "CHR '']'' \<noteq> CHR '',''" by simp
    show "\<exists>c u. stringify y = c # u \<and> c \<noteq> CHR '']''" for y
      using stringify_head [of y] opening_not_closing by blast
    show "x = y \<and> t = t'" if "x \<in> set xs" "no_digit_ahead t" "no_digit_ahead t'"
      "stringify x @ t = stringify y @ t'" for x y t t'
      using JArr(1) that by blast
  qed
  with w show ?case by simp
next
  case (JObj ps)
  from same_kind [OF JObj(4)] obtain qs where w: "w = JObj qs" by auto
  let ?g = "\<lambda>(k, v). quote k @ CHR '':'' # stringify v"
  have "ps = qs \<and> r = r'"
  proof (rule commas_inj [where g = ?g and e = "CHR ''}''"])
    show "commas (map ?g ps) @ CHR ''}'' # r = commas (map ?g qs) @ CHR ''}'' # r'"
      using JObj(4) w by simp
    show "\<not> digit_char CHR ''}''" by (simp add: digit_char_def)
    show "CHR ''}'' \<noteq> CHR '',''" by simp
    show "\<exists>c u. ?g y = c # u \<and> c \<noteq> CHR ''}''" for y
      by (cases y) (simp add: quote_def)
    show "x = y \<and> t = t'" if "x \<in> set ps" "no_digit_ahead t" "no_digit_ahead t'"
      "?g x @ t = ?g y @ t'" for x y t t'
    proof -
      obtain k v where x: "x = (k, v)" by (cases x)
      obtain k' v' where y: "y = (k', v')" by (cases y)
      from that(4) x y have "quote k @ (CHR '':'' # stringify v @ t)
          = quote k' @ (CHR '':'' # stringify v' @ t')" by simp
      from quote_inj [OF this] have k: "k = k'" and "stringify v @ t = stringify v' @ t'"
        by simp_all
      moreover have "v \<in> Basic_BNFs.snds x" using x by simp
      ultimately have "v = v' \<and> t = t'"
        using JObj(1) [OF that(1) _ that(2,3)] by blast
      with k x y show ?thesis by simp
    qed
  qed
  with w show ?case by simp
qed

lemma stringify_inj: "stringify v = stringify w \<Longrightarrow> v = w"
  using stringify_inj_aux [of "[]" "[]" v w] by (simp add: no_digit_ahead_def)

lemma JSON_stringify_eq_iff: "JSON_stringify a = JSON_stringify b \<longleftrightarrow> a = b"
  unfolding JSON_stringify_def
  by (cases a; cases b) (auto dest: stringify_inj)

section \<open>The maps of the reconciliation\<close>

lemma map_of_Map_set: "map_of (Map_set m k v) = (map_of m)(k \<mapsto> v)"
  by (induction m) auto

lemma last_with_key_snoc:
  "last_with_key k (xs @ [r]) = (if createKey r = k then Some r else last_with_key k xs)"
  by (simp add: last_with_key_def)

lemma find_Some_in: "find P xs = Some y \<Longrightarrow> P y \<and> y \<in> set xs"
  by (induction xs) (auto split: if_splits)

lemma last_with_key_Some: "last_with_key k xs = Some y \<Longrightarrow> createKey y = k \<and> y \<in> set xs"
  unfolding last_with_key_def using find_Some_in [of _ "rev xs" y] by auto

lemma keys_replace:
  "map createKey (map (\<lambda>y. if createKey y = createKey r then r else y) ys) = map createKey ys"
  by (induction ys) auto

lemma replace_absent:
  "createKey r \<notin> createKey ` set ys \<Longrightarrow>
     map (\<lambda>y. if createKey y = createKey r then r else y) ys = ys"
  by (induction ys) auto


lemma last_with_key_None: "last_with_key k xs = None \<longleftrightarrow> k \<notin> createKey ` set xs"
  unfolding last_with_key_def by (auto simp: find_None_iff)

lemma set_collapse: "set (collapse xs) \<subseteq> set xs"
proof (induction xs rule: collapse.induct)
  case 1
  show ?case by simp
next
  case (2 x xs)
  then show ?case
    by (auto split: option.splits dest: last_with_key_Some)
qed

lemma collapse_snoc:
  "collapse (xs @ [r]) =
     (if createKey r \<in> createKey ` set xs
      then map (\<lambda>y. if createKey y = createKey r then r else y) (collapse xs)
      else collapse xs @ [r])"
proof (induction xs rule: collapse.induct)
  case 1
  show ?case by (simp add: last_with_key_def)
next
  case (2 x xs)
  let ?ys = "filter (\<lambda>y. createKey y \<noteq> createKey x) xs"
  show ?case
  proof (cases "createKey r = createKey x")
    case True
    have "createKey r \<notin> createKey ` set (collapse ?ys)"
      using set_collapse [of ?ys] True by auto
    then have "map (\<lambda>y. if createKey y = createKey r then r else y) (collapse ?ys) = collapse ?ys"
      by (rule replace_absent)
    with True show ?thesis
      by (auto simp: last_with_key_snoc split: option.splits dest: last_with_key_Some)
  next
    case False
    have k: "createKey (case last_with_key (createKey x) xs of None \<Rightarrow> x | Some y \<Rightarrow> y)
        = createKey x"
      by (auto split: option.splits dest: last_with_key_Some)
    have "(createKey r \<in> createKey ` set ?ys) = (createKey r \<in> createKey ` set xs)"
      using False by auto
    with False 2 k show ?thesis
      by (simp add: last_with_key_snoc)
  qed
qed

lemma keys_collapse: "createKey ` set (collapse xs) = createKey ` set xs"
proof (induction xs rule: rev_induct)
  case Nil
  show ?case by simp
next
  case (snoc r xs)
  have "createKey ` set (map (\<lambda>y. if createKey y = createKey r then r else y) (collapse xs))
      = createKey ` set (collapse xs)"
    using keys_replace [of r "collapse xs"] by (metis set_map)
  with snoc show ?case
    by (auto simp: collapse_snoc)
qed

lemma distinct_collapse: "distinct (map createKey (collapse xs))"
proof (induction xs rule: rev_induct)
  case Nil
  show ?case by simp
next
  case (snoc r xs)
  show ?case
  proof (cases "createKey r \<in> createKey ` set xs")
    case True
    then show ?thesis
      using snoc keys_replace [of r "collapse xs"] by (simp only: collapse_snoc if_True)
  next
    case False
    then show ?thesis
      using snoc keys_collapse [of xs] by (simp add: collapse_snoc)
  qed
qed


lemma collapse_last: "map (\<lambda>x. last_with_key (createKey x) xs) (collapse xs) = map Some (collapse xs)"
proof (induction xs rule: rev_induct)
  case Nil
  show ?case by simp
next
  case (snoc r xs)
  show ?case
  proof (cases "createKey r \<in> createKey ` set xs")
    case True
    have "last_with_key (createKey (if createKey y = createKey r then r else y)) (xs @ [r])
        = Some (if createKey y = createKey r then r else y)"
      if "last_with_key (createKey y) xs = Some y" for y
      using that by (simp add: last_with_key_snoc)
    moreover have "\<forall>y\<in>set (collapse xs). last_with_key (createKey y) xs = Some y"
      using snoc by (simp add: map_eq_conv)
    ultimately show ?thesis using True
      by (simp add: collapse_snoc)
  next
    case False
    have "\<forall>y\<in>set (collapse xs). createKey y \<noteq> createKey r"
      using False keys_collapse [of xs] by (metis imageI)
    then have "map (\<lambda>x. last_with_key (createKey x) (xs @ [r])) (collapse xs)
        = map (\<lambda>x. last_with_key (createKey x) xs) (collapse xs)"
      by (auto simp: last_with_key_snoc)
    with False snoc show ?thesis
      by (simp add: collapse_snoc last_with_key_snoc)
  qed
qed

lemma Map_set_entries:
  assumes "distinct (map createKey ys)"
  shows "Map_set (map (\<lambda>r. (createKey r, r)) ys) (createKey r) r =
     map (\<lambda>r. (createKey r, r))
       (if createKey r \<in> createKey ` set ys
        then map (\<lambda>y. if createKey y = createKey r then r else y) ys
        else ys @ [r])"
  using assms
proof (induction ys)
  case Nil
  show ?case by simp
next
  case (Cons y ys)
  show ?case
  proof (cases "createKey y = createKey r")
    case True
    with Cons.prems have "createKey r \<notin> createKey ` set ys" by auto
    then have "map (\<lambda>y. if createKey y = createKey r then r else y) ys = ys"
      by (rule replace_absent)
    with True show ?thesis by simp
  next
    case False
    with Cons show ?thesis by auto
  qed
qed

lemma foldl_Map_set:
  "foldl (\<lambda>m r. Map_set m (createKey r) r) [] xs = map (\<lambda>r. (createKey r, r)) (collapse xs)"
proof (induction xs rule: rev_induct)
  case Nil
  show ?case by simp
next
  case (snoc r xs)
  then show ?case
    by (simp add: Map_set_entries [OF distinct_collapse] collapse_snoc keys_collapse)
qed

lemma existingMap_collapse: "existingMap R1 = map (\<lambda>r. (createKey r, r)) (collapse R1)"
  unfolding existingMap_def by (rule foldl_Map_set)

lemma newMap_collapse: "newMap R2 = map (\<lambda>r. (createKey r, r)) (collapse R2)"
  unfolding newMap_def by (rule foldl_Map_set)

lemma map_of_foldl_Map_set:
  "map_of (foldl (\<lambda>m r. Map_set m (createKey r) r) [] xs) k = last_with_key k xs"
proof (induction xs rule: rev_induct)
  case Nil
  show ?case by (simp add: last_with_key_def)
next
  case (snoc r xs)
  then show ?case
    by (simp add: map_of_Map_set last_with_key_snoc)
qed

lemma Map_get_newMap: "Map_get (newMap R2) k = last_with_key k R2"
  unfolding Map_get_def newMap_def by (rule map_of_foldl_Map_set)

lemma Map_has_newMap: "Map_has (newMap R2) k \<longleftrightarrow> k \<in> createKey ` set R2"
  unfolding Map_has_def newMap_def
  by (simp add: map_of_foldl_Map_set last_with_key_None)

lemma Map_has_existingMap: "Map_has (existingMap R1) k \<longleftrightarrow> k \<in> createKey ` set R1"
  unfolding Map_has_def existingMap_def
  by (simp add: map_of_foldl_Map_set last_with_key_None)

lemma toAdd_collapse: "toAdd R1 R2 = spec_toAdd R1 (collapse R2)"
  unfolding toAdd_def spec_toAdd_def
  by (simp add: newMap_collapse Map_has_existingMap filter_map comp_def)

lemma toRemove_collapse: "toRemove R1 R2 = spec_toRemove (collapse R1) R2"
  unfolding toRemove_def spec_toRemove_def
  by (simp add: existingMap_collapse Map_has_newMap filter_map comp_def)

lemma toUpdate_collapse: "toUpdate now R1 R2 = concat (map (patch_of now R2) (collapse R1))"
proof -
  have "(\<lambda>(key, e). case Map_get (newMap R2) key of None \<Rightarrow> []
            | Some n \<Rightarrow> (let cs = changes e n
                         in if cs \<noteq> [] then [(id' e, \<lparr>changed = cs, u_updatedAt = now\<rparr>)] else []))
          \<circ> (\<lambda>r. (createKey r, r)) = patch_of now R2"
    by (auto simp: fun_eq_iff patch_of_def Map_get_newMap Let_def split: option.splits)
  then show ?thesis
    unfolding toUpdate_def by (simp add: existingMap_collapse)
qed

section \<open>The diff of a rescan\<close>

lemma js_of_string_eq_iff: "js_of_string a = js_of_string b \<longleftrightarrow> a = b"
  by (cases a; cases b) auto

lemma get_field_eq_iff:
  "JSON_stringify (get_field f e) = JSON_stringify (get_field f n) \<longleftrightarrow> \<not> differs f e n"
  by (cases f) (auto simp: JSON_stringify_eq_iff js_of_string_eq_iff inj_map_eq_map inj_on_def)

lemma changes_spec_patch: "changes e n = spec_patch e n"
  unfolding changes_def spec_patch_def fieldsToCheck_def
  by (simp add: get_field_eq_iff)



section \<open>The frame of the writes of a rescan\<close>

lemma strings_of_Some: "strings_of xs = Some ts \<Longrightarrow> map JStr ts = xs"
proof (induction xs arbitrary: ts rule: strings_of.induct)
  case 1
  then show ?case by simp
next
  case (2 s xs)
  then show ?case by auto
qed simp_all

lemma set_field_identity:
  "set_field (f, v) r = Some r' \<Longrightarrow> same_identity r r' \<and> updatedAt r' = updatedAt r"
  by (cases "((f, v), r)" rule: set_field.cases) (auto simp: same_identity_def)

lemma set_field_get:
  "set_field (f, v) r = Some r' \<Longrightarrow>
     get_field g r' = (if g = f \<and> v \<noteq> None then stored_value f v else get_field g r)"
  by (cases "((f, v), r)" rule: set_field.cases; cases g)
     (auto simp: stored_value_def dest: strings_of_Some)

lemma same_identity_refl: "same_identity e e"
  by (simp add: same_identity_def)

lemma same_identity_trans: "same_identity a b \<Longrightarrow> same_identity b c \<Longrightarrow> same_identity a c"
  by (simp add: same_identity_def)

lemma set_fields_effect:
  "set_fields cs r = Some r' \<Longrightarrow>
     same_identity r r'
     \<and> (\<forall>g. get_field g r' = get_field g r
            \<or> (\<exists>v. (g, v) \<in> set cs \<and> get_field g r' = stored_value g v))"
proof (induction cs arbitrary: r)
  case Nil
  then show ?case by (simp add: same_identity_refl)
next
  case (Cons c cs)
  obtain f v where c: "c = (f, v)" by (cases c)
  from Cons.prems c obtain r1 where r1: "set_field (f, v) r = Some r1" "set_fields cs r1 = Some r'"
    by (auto split: option.splits)
  from Cons.IH [OF r1(2)] have i: "same_identity r1 r'"
    and g: "\<And>g. get_field g r' = get_field g r1
               \<or> (\<exists>v. (g, v) \<in> set cs \<and> get_field g r' = stored_value g v)"
    by auto
  have "get_field g r' = get_field g r
      \<or> (\<exists>v. (g, v) \<in> set (c # cs) \<and> get_field g r' = stored_value g v)" for g
    using g [of g] set_field_get [OF r1(1), of g] c by (auto split: if_splits)
  with i set_field_identity [OF r1(1)] show ?case
    by (auto intro: same_identity_trans)
qed

lemma changes_member:
  "(g, v) \<in> set (changes e n) \<Longrightarrow> v = get_field g n \<and> differs g e n"
proof -
  assume "(g, v) \<in> set (changes e n)"
  then have "\<exists>f. differs f e n \<and> (g, v) = (f, get_field f n)"
    unfolding changes_spec_patch spec_patch_def
    by (simp only: set_map set_filter image_iff mem_Collect_eq) blast
  then show ?thesis by auto
qed

lemma patched_by_refl: "patched_by n now e e"
  by (simp add: patched_by_def kept_or_changed_def)

lemma patch_again:
  assumes "same_identity e e1" and "patched_by n now e e1"
    and "set_fields (changes e n) e1 = Some e2"
  shows "same_identity e (e2\<lparr>updatedAt := now\<rparr>) \<and> patched_by n now e (e2\<lparr>updatedAt := now\<rparr>)"
proof -
  from set_fields_effect [OF assms(3)] have i: "same_identity e1 e2"
    and g: "\<And>g. get_field g e2 = get_field g e1
               \<or> (\<exists>v. (g, v) \<in> set (changes e n) \<and> get_field g e2 = stored_value g v)"
    by auto
  have k: "kept_or_changed n e (e2\<lparr>updatedAt := now\<rparr>) f"
    if "kept_or_changed n e e1 f" for f
  proof -
    have u: "get_field f (e2\<lparr>updatedAt := now\<rparr>) = get_field f e2"
      by (cases f) simp_all
    from g [of f] show ?thesis
    proof
      assume "get_field f e2 = get_field f e1"
      with that u show ?thesis by (simp add: kept_or_changed_def)
    next
      assume "\<exists>v. (f, v) \<in> set (changes e n) \<and> get_field f e2 = stored_value f v"
      then obtain v where v: "(f, v) \<in> set (changes e n)" "get_field f e2 = stored_value f v"
        by auto
      from changes_member [OF v(1)] v(2) u show ?thesis by (simp add: kept_or_changed_def)
    qed
  qed
  from assms(2) k have "patched_by n now e (e2\<lparr>updatedAt := now\<rparr>)"
    by (simp add: patched_by_def)
  moreover from assms(1) i have "same_identity e (e2\<lparr>updatedAt := now\<rparr>)"
    by (simp add: same_identity_def)
  ultimately show ?thesis by simp
qed

text \<open>The row that stands for \<open>e\<close> in a table.\<close>

lemma update_row_keeps:
  assumes "update_row i u rows = Some rows'"
    and "e' \<in> set rows" and "same_identity e e'" and "patched_by n now e e'"
    and "i = id' e \<Longrightarrow> changed u = changes e n \<and> u_updatedAt u = now"
  shows "\<exists>e''\<in>set rows'. same_identity e e'' \<and> patched_by n now e e''"
  using assms(1,2)
proof (induction rows arbitrary: rows')
  case Nil
  then show ?case by simp
next
  case (Cons r rs)
  show ?case
  proof (cases "id' r = i")
    case True
    with Cons.prems(1) obtain r2 where r2: "set_fields (changed u) r = Some r2"
      and rows': "rows' = r2\<lparr>updatedAt := u_updatedAt u\<rparr> # rs"
      by auto
    show ?thesis
    proof (cases "e' \<in> set rs")
      case True
      with rows' assms(3,4) show ?thesis by auto
    next
      case False
      with Cons.prems(2) have e': "e' = r" by simp
      with True assms(3) have "i = id' e" by (simp add: same_identity_def)
      with assms(5) have u: "changed u = changes e n" "u_updatedAt u = now" by simp_all
      from patch_again [OF assms(3,4), of e2 for e2] r2 e' u rows' show ?thesis
        by auto
    qed
  next
    case False
    with Cons.prems(1) obtain rs' where rs': "update_row i u rs = Some rs'"
      and rows': "rows' = r # rs'"
      by auto
    show ?thesis
    proof (cases "e' = r")
      case True
      with rows' assms(3,4) show ?thesis by auto
    next
      case False
      with Cons.prems(2) have "e' \<in> set rs" by simp
      from Cons.IH [OF rs' this] rows' show ?thesis by auto
    qed
  qed
qed

lemma update_all_keeps:
  assumes "update_all fault us st = Inr st'"
    and "\<exists>e'\<in>set (result_table st). same_identity e e' \<and> patched_by n now e e'"
    and "\<And>i u. (i, u) \<in> set us \<Longrightarrow> i = id' e \<Longrightarrow>
           changed u = changes e n \<and> u_updatedAt u = now"
  shows "\<exists>e'\<in>set (result_table st'). same_identity e e' \<and> patched_by n now e e'"
  using assms
proof (induction us arbitrary: st)
  case Nil
  then show ?case by simp
next
  case (Cons p us)
  obtain i u where p: "p = (i, u)" by (cases p)
  from Cons.prems(1) p obtain st1 where st1: "update (fault i) i u st = Inr st1"
    and rest: "update_all fault us st1 = Inr st'"
    by (auto split: sum.splits)
  from st1 obtain rows' where rows': "update_row i u (result_table st) = Some rows'"
    and t: "result_table st1 = rows'"
    by (auto simp: update_def split: option.splits)
  from Cons.prems(2) obtain e' where e': "e' \<in> set (result_table st)"
    "same_identity e e'" "patched_by n now e e'" by auto
  have "\<exists>e''\<in>set rows'. same_identity e e'' \<and> patched_by n now e e''"
    using update_row_keeps [OF rows' e'] Cons.prems(3) [of i u] p by simp
  with t have "\<exists>e'\<in>set (result_table st1). same_identity e e' \<and> patched_by n now e e'"
    by simp
  from Cons.IH [OF rest this] Cons.prems(3) show ?case by simp
qed

lemma distinct_ids_eq:
  "distinct (map id' rows) \<Longrightarrow> x \<in> set rows \<Longrightarrow> y \<in> set rows \<Longrightarrow> id' x = id' y \<Longrightarrow> x = y"
  by (meson distinct_map inj_onD)

lemma toRemove_member:
  "i \<in> set (toRemove R1 R2) \<Longrightarrow> \<exists>x\<in>set R1. i = id' x \<and> createKey x \<notin> createKey ` set R2"
  unfolding toRemove_collapse spec_toRemove_def using set_collapse [of R1] by auto

lemma toUpdate_member:
  "(i, u) \<in> set (toUpdate now R1 R2) \<Longrightarrow>
     \<exists>x\<in>set R1. \<exists>n. last_with_key (createKey x) R2 = Some n \<and> i = id' x
        \<and> changed u = changes x n \<and> u_updatedAt u = now"
proof -
  assume "(i, u) \<in> set (toUpdate now R1 R2)"
  then obtain x where x: "x \<in> set (collapse R1)" "(i, u) \<in> set (patch_of now R2 x)"
    unfolding toUpdate_collapse by auto
  show ?thesis
  proof (cases "last_with_key (createKey x) R2")
    case None
    with x(2) show ?thesis by (simp add: patch_of_def)
  next
    case (Some n)
    with x(2) have "i = id' x" "changed u = changes x n" "u_updatedAt u = now"
      by (auto simp: patch_of_def split: if_splits)
    with Some x(1) set_collapse [of R1] show ?thesis by blast
  qed
qed

lemma tx_body_keeps:
  assumes d: "distinct (map id' (result_table st))"
    and e: "e \<in> set (result_table st)" "scanId e = sid"
    and n: "last_with_key (createKey e) R2 = Some n"
    and R1: "R1 = filter (\<lambda>r. scanId r = sid) (result_table st)"
    and body: "tx_body fl sid now (toRemove R1 R2) (toAdd R1 R2) (toUpdate now R1 R2) st = Inr st'"
  shows "\<exists>e'\<in>set (result_table st'). same_identity e e' \<and> patched_by n now e e'"
proof -
  have sub: "set R1 \<subseteq> set (result_table st)" using R1 by auto
  have key: "createKey e \<in> createKey ` set R2"
    using n last_with_key_None [of "createKey e" R2] by auto
  have keep: "id' e \<notin> set (toRemove R1 R2)"
  proof
    assume "id' e \<in> set (toRemove R1 R2)"
    from toRemove_member [OF this] obtain x where x: "x \<in> set R1" "id' e = id' x"
      "createKey x \<notin> createKey ` set R2" by auto
    from distinct_ids_eq [OF d e(1)] x(1,2) sub have "e = x" by auto
    with x(3) key show False by simp
  qed
  have upd: "changed u = changes e n \<and> u_updatedAt u = now"
    if "(i, u) \<in> set (toUpdate now R1 R2)" "i = id' e" for i u
  proof -
    from toUpdate_member [OF that(1)] obtain x m where x: "x \<in> set R1"
      "last_with_key (createKey x) R2 = Some m" "i = id' x"
      "changed u = changes x m" "u_updatedAt u = now" by auto
    from distinct_ids_eq [OF d e(1)] x(1,3) that(2) sub have "e = x" by auto
    with x n show ?thesis by simp
  qed
  from body obtain st1 st2 where
    s1: "(if toRemove R1 R2 \<noteq> [] then deleteMany (tx_deleteMany_fault fl) (toRemove R1 R2) st
         else Inr st) = Inr st1"
    and s2: "(if toAdd R1 R2 \<noteq> []
         then createMany (tx_createMany_fault fl) sid now (map data_of (toAdd R1 R2)) st1
         else Inr st1) = Inr st2"
    and s3: "update_all (tx_update_fault fl) (toUpdate now R1 R2) st2 = Inr st'"
    unfolding tx_body_def by (auto split: sum.splits)
  from s1 e(1) keep have "e \<in> set (result_table st1)"
    by (auto simp: deleteMany_def split: if_splits option.splits)
  with s2 have "e \<in> set (result_table st2)"
    by (auto simp: createMany_def split: if_splits option.splits)
  then have "\<exists>e'\<in>set (result_table st2). same_identity e e' \<and> patched_by n now e e'"
    using same_identity_refl patched_by_refl by blast
  from update_all_keeps [OF s3 this] upd show ?thesis by blast
qed

lemma handleRescanDiff_cases:
  assumes "handleRescanDiff fl now sid R2 st = (r, st')"
  shows "(r \<noteq> None \<and> st' = st)
     \<or> (r = None \<and> result_findMany_fault fl = None \<and> tx_commit_fault fl = None
        \<and> tx_body fl sid now
             (toRemove (filter (\<lambda>r. scanId r = sid) (result_table st)) R2)
             (toAdd (filter (\<lambda>r. scanId r = sid) (result_table st)) R2)
             (toUpdate now (filter (\<lambda>r. scanId r = sid) (result_table st)) R2) st = Inr st')"
  using assms unfolding handleRescanDiff_def findMany_def transaction_def
  by (auto split: option.splits sum.splits)

section \<open>The outcomes of a scan\<close>

lemma analyze_spec:
  "analyze ad u opts =
     (case first_success (strategies ad u opts) of
        Some w \<Rightarrow> Inr w
      | None \<Rightarrow> Inl (Error ''Error'' (all_failed_message (strategies ad u opts))),
      tried (strategies ad u opts))"
  unfolding analyze_def strategies_def all_failed_message_def
  by (cases "simpleAnalyze ad u opts"; cases "playwrightAnalyze ad u opts False";
      cases "htmlAnalyze ad u opts") simp_all

lemma update_scan_row_find:
  assumes "find (\<lambda>s. scan_id s = i) ss = Some s" and "\<And>x. scan_id (d x) = scan_id x"
  shows "\<exists>ss'. update_scan_row i d ss = Some (d s, ss')
       \<and> find (\<lambda>s. scan_id s = i) ss' = Some (d s)"
  using assms(1)
proof (induction ss)
  case Nil
  then show ?case by simp
next
  case (Cons x xs)
  then show ?case using assms(2) by (cases "scan_id x = i") auto
qed

lemma update_scan_row_None:
  "find (\<lambda>s. scan_id s = i) ss = None \<Longrightarrow> update_scan_row i d ss = None"
  by (induction ss) (auto split: if_splits)

lemma scan_update_ok:
  assumes "find_scan i st = Some s" and "\<And>x. scan_id (d x) = scan_id x"
  shows "\<exists>st'. scan_update None i now d st = Inr ((d s)\<lparr>scan_updatedAt := now\<rparr>, st')
       \<and> find_scan i st' = Some ((d s)\<lparr>scan_updatedAt := now\<rparr>)
       \<and> result_table st' = result_table st \<and> nextId st' = nextId st"
proof -
  from update_scan_row_find [of i "scan_table st" s "\<lambda>s. (d s)\<lparr>scan_updatedAt := now\<rparr>"] assms
  obtain ss' where "update_scan_row i (\<lambda>s. (d s)\<lparr>scan_updatedAt := now\<rparr>) (scan_table st)
       = Some ((d s)\<lparr>scan_updatedAt := now\<rparr>, ss')"
    "find (\<lambda>s. scan_id s = i) ss' = Some ((d s)\<lparr>scan_updatedAt := now\<rparr>)"
    by (auto simp: find_scan_def)
  then show ?thesis
    by (simp add: scan_update_def find_scan_def)
qed

lemma scan_update_result:
  "scan_update fault i now d st = Inr (s', st') \<Longrightarrow> result_table st' = result_table st"
  by (auto simp: scan_update_def split: option.splits)

lemma scan_update_fails:
  "scan_update fault i now d st = Inl e \<Longrightarrow> find_scan i st = Some s \<Longrightarrow>
     (\<And>x. scan_id (d x) = scan_id x) \<Longrightarrow> fault = Some e"
  using scan_update_ok [of i st s d now]
  by (cases fault) (auto simp: scan_update_def)

lemma failed_data_id: "scan_id (failed_data now e x) = scan_id x"
  by (simp add: failed_data_def)

lemma completed_data_id: "scan_id (completed_data now a m x) = scan_id x"
  by (simp add: completed_data_def)

lemma reset_data_id: "scan_id (reset_data now u x) = scan_id x"
  by (simp add: reset_data_def)

text \<open>The operations on the results leave the table of the scans alone.\<close>

lemma update_all_scans:
  "update_all fault us st = Inr st' \<Longrightarrow> scan_table st' = scan_table st"
proof (induction us arbitrary: st)
  case Nil
  then show ?case by simp
next
  case (Cons p us)
  obtain i u where p: "p = (i, u)" by (cases p)
  from Cons.prems p obtain st1 where st1: "update (fault i) i u st = Inr st1"
    and rest: "update_all fault us st1 = Inr st'"
    by (auto split: sum.splits)
  from st1 have "scan_table st1 = scan_table st"
    by (auto simp: update_def split: option.splits)
  with Cons.IH [OF rest] show ?case by simp
qed

lemma tx_body_scans:
  "tx_body fl sid now rem add upd st = Inr st' \<Longrightarrow> scan_table st' = scan_table st"
  unfolding tx_body_def
  by (auto simp: deleteMany_def createMany_def split: sum.splits if_splits option.splits
      dest!: update_all_scans)

lemma handleRescanDiff_scans:
  "handleRescanDiff fl now sid R2 st = (r, st') \<Longrightarrow> scan_table st' = scan_table st"
  using handleRescanDiff_cases [of fl now sid R2 st r st'] tx_body_scans by auto

lemma save_results_scans:
  "save_results fl now sid isRescan rs st = (r, st') \<Longrightarrow> scan_table st' = scan_table st"
  unfolding save_results_def
  by (auto simp: createMany_def split: if_splits sum.splits option.splits
      dest: handleRescanDiff_scans)

lemma save_results_find:
  "save_results fl now sid isRescan rs st = (r, st') \<Longrightarrow> find_scan i st' = find_scan i st"
  by (simp add: find_scan_def save_results_scans)

lemma try_block_outcome:
  assumes "find_scan sid st = Some s" and "try_block fl ad now sid u opts isRescan st = (r, st1)"
  shows "(case r of
            None \<Rightarrow> (\<exists>a m. fst (analyze ad u opts) = Inr (a, m)
                      \<and> find_scan sid st1 = Some ((completed_data now a m s)\<lparr>scan_updatedAt := now\<rparr>))
          | Some e \<Rightarrow> find_scan sid st1 = Some s)"
proof (cases "fst (analyze ad u opts)")
  case (Inl e)
  with assms show ?thesis by (auto simp: try_block_def)
next
  case (Inr w)
  obtain a m where w: "w = (a, m)" by (cases w)
  obtain r1 st0 where sv: "save_results fl now sid isRescan (results a) st = (r1, st0)"
    by (cases "save_results fl now sid isRescan (results a) st")
  from save_results_find [OF sv] assms(1) have f0: "find_scan sid st0 = Some s" by simp
  show ?thesis
  proof (cases r1)
    case (Some e)
    with assms(2) Inr w sv f0 show ?thesis by (auto simp: try_block_def)
  next
    case None
    show ?thesis
    proof (cases "scan_update (scan_update_completed_fault fl) sid now (completed_data now a m) st0")
      case (Inl e)
      with assms(2) Inr w sv None f0 show ?thesis by (auto simp: try_block_def)
    next
      case (Inr p)
      obtain s' st' where p: "p = (s', st')" by (cases p)
      from Inr p have "scan_update_completed_fault fl = None"
        by (auto simp: scan_update_def split: option.splits)
      with scan_update_ok [of sid st0 s "completed_data now a m" now, OF f0 completed_data_id] Inr p
      have "find_scan sid st' = Some ((completed_data now a m s)\<lparr>scan_updatedAt := now\<rparr>)"
        by auto
      with assms(2) \<open>fst (analyze ad u opts) = Inr w\<close> w sv None Inr p show ?thesis
        by (auto simp: try_block_def)
    qed
  qed
qed

lemma processScan_outcome:
  assumes "find_scan sid st = Some s"
    and "try_block fl ad now sid u opts isRescan st = (r1, st1)"
    and "processScan fl ad now sid u opts isRescan st = (r, st')"
  shows "(case r1 of
            None \<Rightarrow> r = None \<and> st' = st1
          | Some e \<Rightarrow>
              (case scan_update_failed_fault fl of
                 None \<Rightarrow> r = Some e \<and> result_table st' = result_table st1
                   \<and> find_scan sid st' = Some ((failed_data now e s)\<lparr>scan_updatedAt := now\<rparr>)
               | Some e' \<Rightarrow> r = Some e' \<and> st' = st1))"
proof (cases r1)
  case None
  with assms(2,3) show ?thesis by (simp add: processScan_def)
next
  case (Some e)
  from try_block_outcome [OF assms(1,2)] Some have f1: "find_scan sid st1 = Some s" by simp
  show ?thesis
  proof (cases "scan_update_failed_fault fl")
    case None
    from scan_update_ok [of sid st1 s "failed_data now e" now, OF f1 failed_data_id] obtain st2 where
      "scan_update None sid now (failed_data now e) st1
         = Inr ((failed_data now e s)\<lparr>scan_updatedAt := now\<rparr>, st2)"
      "find_scan sid st2 = Some ((failed_data now e s)\<lparr>scan_updatedAt := now\<rparr>)"
      "result_table st2 = result_table st1" by auto
    with assms(2,3) Some None show ?thesis by (auto simp: processScan_def)
  next
    case f: (Some e')
    then have "scan_update (scan_update_failed_fault fl) sid now (failed_data now e) st1 = Inl e'"
      by (simp add: scan_update_def)
    with assms(2,3) \<open>r1 = Some e\<close> have "r = Some e'" "st' = st1"
      by (simp_all add: processScan_def)
    then show ?thesis
      by (simp only: \<open>r1 = Some e\<close> f option.case simp_thms)
  qed
qed

lemma update_scan_row_length:
  "update_scan_row i d ss = Some (s', ss') \<Longrightarrow> length ss' = length ss"
  by (induction ss arbitrary: ss') (auto split: if_splits)

section \<open>The rescan of a project\<close>

lemma found_or_created_mono:
  "found_or_created p rows u en \<Longrightarrow> found_or_created p (rows0 @ rows @ rows1) u en"
  unfolding found_or_created_def by (auto split: option.splits simp: list_ex_iff)

lemma rescan_url_ok:
  assumes "fault = None" and "rescan_url fault now p u st = (r, st')"
  shows "\<exists>en rows. r = Inr (en, scanData p u (map_option scan_id (existingScan p u)))
       \<and> scan_table st' = scan_table st @ rows \<and> result_table st' = result_table st
       \<and> found_or_created p rows u en"
proof (cases "existingScan p u")
  case None
  with assms show ?thesis
    by (auto simp: rescan_url_def scan_create_def found_or_created_def Let_def)
next
  case (Some s)
  with assms show ?thesis
    by (auto simp: rescan_url_def found_or_created_def)
qed

lemma rescan_urls_ok:
  assumes "list_all (\<lambda>u. fault u = None) us" and "rescan_urls fault now p us st = (rs, st')"
  shows "\<not> list_ex isl rs
       \<and> map (\<lambda>r. snd (projr r)) rs = map (\<lambda>u. scanData p u (map_option scan_id (existingScan p u))) us
       \<and> result_table st' = result_table st
       \<and> (\<exists>rows. scan_table st' = scan_table st @ rows
             \<and> list_all2 (found_or_created p rows) us (map (\<lambda>r. fst (projr r)) rs))"
  using assms
proof (induction us arbitrary: st rs st')
  case Nil
  then show ?case by simp
next
  case (Cons u us)
  obtain r st1 where r: "rescan_url (fault u) now p u st = (r, st1)"
    by (cases "rescan_url (fault u) now p u st")
  obtain rs1 st2 where rs1: "rescan_urls fault now p us st1 = (rs1, st2)"
    by (cases "rescan_urls fault now p us st1")
  from Cons.prems(2) r rs1 have eq: "rs = r # rs1" "st' = st2" by simp_all
  from Cons.prems(1) have f: "fault u = None" "list_all (\<lambda>u. fault u = None) us" by simp_all
  from rescan_url_ok [OF f(1) r] obtain en rows where
    h: "r = Inr (en, scanData p u (map_option scan_id (existingScan p u)))"
      "scan_table st1 = scan_table st @ rows" "result_table st1 = result_table st"
      "found_or_created p rows u en" by auto
  from Cons.IH [OF f(2) rs1] obtain rows1 where
    i: "\<not> list_ex isl rs1"
      "map (\<lambda>r. snd (projr r)) rs1 = map (\<lambda>u. scanData p u (map_option scan_id (existingScan p u))) us"
      "result_table st2 = result_table st1"
      "scan_table st2 = scan_table st1 @ rows1"
      "list_all2 (found_or_created p rows1) us (map (\<lambda>r. fst (projr r)) rs1)" by blast
  have "found_or_created p (rows @ rows1) u en"
    using found_or_created_mono [OF h(4), of "[]" rows1] by simp
  moreover have "list_all2 (found_or_created p (rows @ rows1)) us (map (\<lambda>r. fst (projr r)) rs1)"
    using i(5) found_or_created_mono [of p rows1 _ _ rows "[]"]
    by (auto elim!: list_all2_mono)
  ultimately show ?case using eq h i by auto
qed

section \<open>Keys and identities\<close>









section \<open>The requests of a rescan\<close>

lemma rescan_of_starts:
  assumes "rescan_of p u s req"
  shows "starts_rescan req u s"
  unfolding starts_rescan_def
proof (intro allI impI)
  fix fl :: faults and now st row
  assume u: "u \<noteq> []" and f: "scan_update_reset_fault fl = None"
    and r: "find_scan (scan_id s) st = Some row"
  from scan_update_ok [of "scan_id s" st row "reset_data now u" now, OF r reset_data_id]
  obtain st' where up: "scan_update None (scan_id s) now (reset_data now u) st
      = Inr ((reset_data now u row)\<lparr>scan_updatedAt := now\<rparr>, st')"
    by auto
  from r have id: "scan_id row = scan_id s"
    by (auto simp: find_scan_def dest: find_Some_in)
  from assms u f up id show "\<exists>s' st' t. POST_scans fl now (Some req) st = (Json s', st', Some t)
           \<and> scan_id s' = scan_id s \<and> status s' = ''in_progress''
           \<and> task_scanId t = scan_id s \<and> task_url t = u \<and> task_isRescan t"
    by (simp add: POST_scans_def rescan_of_def reset_data_def)
qed

lemma scanData_rescan_of: "rescan_of p u s (scanData p u (Some (scan_id s)))"
  by (simp add: rescan_of_def scanData_def)

section \<open>The rescan of the project at rest\<close>

lemma rescan_of_idle_project:
  "POST_rescan (\<lambda>u. None) 9 (Inr (Some idle_project)) idle_store
     = (Json \<lparr>body_success = True,
               body_message = ''Started rescanning '' @ show_nat 2 @ '' URLs'',
               body_scans = [\<lparr>entry_id = 7, entry_url = ''https://a.com'',
                               entry_status = ''rescanning''\<rparr>,
                             \<lparr>entry_id = 8, entry_url = ''https://c.com'',
                               entry_status = ''pending''\<rparr>]\<rparr>,
        \<lparr>scan_table = [scan_7_done, pending_8], result_table = [], nextId = 9\<rparr>,
        [scanData idle_project ''https://a.com'' (Some 7),
         scanData idle_project ''https://c.com'' None])"
  by (simp add: POST_rescan_def pendingScans_def rescan_url_def existingScan_def
      scan_create_def Let_def idle_project_def idle_store_def scan_7_done_def scan_7_def
      pending_8_def numeral_2_eq_2)

lemma after_requests_unfolded:
  "after_requests =
     handle_request no_faults simple_works 10 (scanData idle_project ''https://c.com'' None)
       (handle_request no_faults simple_works 10 (scanData idle_project ''https://a.com'' (Some 7))
          \<lparr>scan_table = [scan_7_done, pending_8], result_table = [], nextId = 9\<rparr>)"
  by (simp add: after_requests_def after_rescan_def rescan_of_idle_project)

lemma after_requests_scans:
  "map (\<lambda>s. (scan_id s, scan_url s, status s)) (scan_table after_requests)
     = [(7, ''https://a.com'', ''completed''), (8, ''https://c.com'', ''pending''),
        (10, ''https://c.com'', ''completed'')]"
  unfolding after_requests_unfolded
  by (simp add: handle_request_def POST_scans_def
        scanData_def idle_project_def scan_update_def scan_create_def reset_data_def
        run_task_def processScan_def try_block_def analyze_def save_results_def
        handleRescanDiff_def findMany_def transaction_def tx_body_def
        toAdd_collapse toRemove_collapse toUpdate_collapse spec_toAdd_def spec_toRemove_def
        createMany_def completed_data_def no_faults_def simple_works_def one_issue_def
        scan_7_done_def scan_7_def pending_8_def Let_def)

section \<open>The properties of the specification\<close>




text \<open>
  C2, as stated: when one of the three writes of the reconciliation fails, none
  of them can be observed and the scan is marked failed. The second part fails
  when the store also rejects the two writes of the status failed, the one of
  the \<open>catch\<close> block of \<open>processScan\<close> and the one of the handler of \<open>POST\<close>: the
  stored results are as they were, and the scan stays in progress.
\<close>

theorem rescan_failure_unrecorded_counterexample:
  "fst (handleRescanDiff store_stays_down 9 7 (results one_issue) store_7) = Some db_down
   \<and> result_table (run_task store_stays_down simple_works 9 rescan_task_7 store_7)
       = [missing_alt_old]
   \<and> map_option status (find_scan 7 (run_task store_stays_down simple_works 9 rescan_task_7
         store_7)) = Some ''in_progress''"
  by (simp add: run_task_def processScan_def try_block_def analyze_def save_results_def
      handleRescanDiff_def findMany_def transaction_def tx_body_def
      toAdd_collapse toRemove_collapse toUpdate_collapse spec_toAdd_def spec_toRemove_def
      patch_of_def last_with_key_def deleteMany_def createMany_def scan_update_def
      find_scan_def store_stays_down_def createMany_fails_def no_faults_def simple_works_def
      rescan_task_7_def task_7_def store_7_def scan_7_def one_issue_def createKey_def
      low_contrast_def missing_alt_old_def)

text \<open>
  C2, amended. The deletions, the insertions and the patches of a rescan are
  applied in one transaction: when the body of the transaction throws, whichever
  of the three writes failed, \<open>handleRescanDiff\<close> throws the same error and the
  store is as it was before, so that none of the writes can be observed;
  \<open>processScan\<close> rejects, and when the store accepts the write of the status
  failed of the \<open>catch\<close> block or the one of the handler of \<open>POST\<close>, the task leaves
  the stored results as they were and the scan failed, with the message of the
  error that \<open>processScan\<close> rejected with.
\<close>

theorem rescan_diff_atomic:
  assumes "find_scan (task_scanId t) st = Some s" and "task_isRescan t"
    and "fst (analyze ad (task_url t) (task_options t)) = Inr (a, m)"
    and "findMany (result_findMany_fault fl) (task_scanId t) st = Inr R1"
    and "tx_body fl (task_scanId t) now (toRemove R1 (results a)) (toAdd R1 (results a))
           (toUpdate now R1 (results a)) st = Inl e"
    and "scan_update_failed_fault fl = None \<or> scan_update_failed_POST_fault fl = None"
  shows "handleRescanDiff fl now (task_scanId t) (results a) st = (Some e, st)
     \<and> fst (processScan fl ad now (task_scanId t) (task_url t) (task_options t) True st)
         = Some (case scan_update_failed_fault fl of None \<Rightarrow> e | Some e' \<Rightarrow> e')
     \<and> result_table (run_task fl ad now t st) = result_table st
     \<and> find_scan (task_scanId t) (run_task fl ad now t st)
         = Some ((failed_data now
                    (case scan_update_failed_fault fl of None \<Rightarrow> e | Some e' \<Rightarrow> e') s)
                   \<lparr>scan_updatedAt := now\<rparr>)"
proof -
  let ?sid = "task_scanId t"
  let ?p = "processScan fl ad now ?sid (task_url t) (task_options t) True st"
  have h: "handleRescanDiff fl now ?sid (results a) st = (Some e, st)"
    using assms(4,5) by (simp add: handleRescanDiff_def transaction_def)
  with assms(3) have tb: "try_block fl ad now ?sid (task_url t) (task_options t) True st
      = (Some e, st)"
    by (simp add: try_block_def save_results_def)
  obtain r st1 where ps: "?p = (r, st1)" by (cases ?p)
  note out = processScan_outcome [OF assms(1) tb ps]
  show ?thesis
  proof (cases "scan_update_failed_fault fl")
    case None
    with out have r: "r = Some e" and rt: "result_table st1 = result_table st"
      and f1: "find_scan ?sid st1 = Some ((failed_data now e s)\<lparr>scan_updatedAt := now\<rparr>)"
      by simp_all
    have "result_table (run_task fl ad now t st) = result_table st
        \<and> find_scan ?sid (run_task fl ad now t st)
            = Some ((failed_data now e s)\<lparr>scan_updatedAt := now\<rparr>)"
    proof (cases "scan_update (scan_update_failed_POST_fault fl) ?sid now (failed_data now e) st1")
      case (Inl e')
      with ps r rt f1 assms(2) show ?thesis by (simp add: run_task_def)
    next
      case (Inr q)
      obtain s2 st2 where q: "q = (s2, st2)" by (cases q)
      from Inr q have "scan_update_failed_POST_fault fl = None"
        by (auto simp: scan_update_def split: option.splits)
      with scan_update_ok [of ?sid st1 _ "failed_data now e" now, OF f1 failed_data_id] Inr q
      have "find_scan ?sid st2 = Some ((failed_data now e
            ((failed_data now e s)\<lparr>scan_updatedAt := now\<rparr>))\<lparr>scan_updatedAt := now\<rparr>)"
        "result_table st2 = result_table st1"
        by auto
      with ps r rt Inr q assms(2) show ?thesis by (simp add: run_task_def failed_data_def)
    qed
    with h ps r None show ?thesis by simp
  next
    case f: (Some e')
    with out have r: "r = Some e'" and st1: "st1 = st" by simp_all
    from assms(6) f have "scan_update_failed_POST_fault fl = None" by simp
    with scan_update_ok [of ?sid st s "failed_data now e'" now, OF assms(1) failed_data_id]
    obtain st2 where "scan_update (scan_update_failed_POST_fault fl) ?sid now
          (failed_data now e') st = Inr ((failed_data now e' s)\<lparr>scan_updatedAt := now\<rparr>, st2)"
      "find_scan ?sid st2 = Some ((failed_data now e' s)\<lparr>scan_updatedAt := now\<rparr>)"
      "result_table st2 = result_table st"
      by auto
    with h ps r st1 f assms(2) show ?thesis by (simp add: run_task_def)
  qed
qed

theorem rescan_diff_atomic_witness:
  "find_scan (task_scanId rescan_task_7) store_7 = Some scan_7
   \<and> task_isRescan rescan_task_7
   \<and> fst (analyze simple_works (task_url rescan_task_7) (task_options rescan_task_7))
       = Inr (one_issue, ''simple'')
   \<and> findMany (result_findMany_fault catch_write_fails) (task_scanId rescan_task_7) store_7
       = Inr [missing_alt_old]
   \<and> toRemove [missing_alt_old] (results one_issue) = [0]
   \<and> deleteMany (tx_deleteMany_fault catch_write_fails) [0] store_7
       = Inr (store_7\<lparr>result_table := []\<rparr>)
   \<and> tx_body catch_write_fails (task_scanId rescan_task_7) 9
        (toRemove [missing_alt_old] (results one_issue))
        (toAdd [missing_alt_old] (results one_issue))
        (toUpdate 9 [missing_alt_old] (results one_issue)) store_7 = Inl db_down
   \<and> scan_update_failed_POST_fault catch_write_fails = None
   \<and> result_table (run_task catch_write_fails simple_works 9 rescan_task_7 store_7)
       = [missing_alt_old]
   \<and> map_option status (find_scan 7 (run_task catch_write_fails simple_works 9 rescan_task_7
         store_7)) = Some ''failed''
   \<and> map_option error (find_scan 7 (run_task catch_write_fails simple_works 9 rescan_task_7
         store_7)) = Some (Some ''Can't reach database server'')"
proof -
  have h1: "find_scan (task_scanId rescan_task_7) store_7 = Some scan_7"
    by (simp add: find_scan_def rescan_task_7_def task_7_def store_7_def scan_7_def)
  have h2: "task_isRescan rescan_task_7" by (simp add: rescan_task_7_def)
  have h3: "fst (analyze simple_works (task_url rescan_task_7) (task_options rescan_task_7))
      = Inr (one_issue, ''simple'')"
    by (simp add: analyze_def simple_works_def)
  have h4: "findMany (result_findMany_fault catch_write_fails) (task_scanId rescan_task_7) store_7
      = Inr [missing_alt_old]"
    by (simp add: findMany_def catch_write_fails_def createMany_fails_def no_faults_def
        rescan_task_7_def task_7_def store_7_def missing_alt_old_def)
  have rem: "toRemove [missing_alt_old] (results one_issue) = [0]"
    by (simp add: toRemove_collapse spec_toRemove_def one_issue_def createKey_def
        low_contrast_def missing_alt_old_def last_with_key_def)
  have add: "toAdd [missing_alt_old] (results one_issue) = [low_contrast]"
    by (simp add: toAdd_collapse spec_toAdd_def one_issue_def createKey_def
        low_contrast_def missing_alt_old_def last_with_key_def)
  have del: "deleteMany (tx_deleteMany_fault catch_write_fails) [0] store_7
      = Inr (store_7\<lparr>result_table := []\<rparr>)"
    by (simp add: deleteMany_def catch_write_fails_def createMany_fails_def no_faults_def
        store_7_def missing_alt_old_def)
  have h5: "tx_body catch_write_fails (task_scanId rescan_task_7) 9
        (toRemove [missing_alt_old] (results one_issue))
        (toAdd [missing_alt_old] (results one_issue))
        (toUpdate 9 [missing_alt_old] (results one_issue)) store_7 = Inl db_down"
    unfolding rem add
    by (simp add: tx_body_def deleteMany_def createMany_def catch_write_fails_def
        createMany_fails_def no_faults_def)
  have h6: "scan_update_failed_POST_fault catch_write_fails = None"
    by (simp add: catch_write_fails_def createMany_fails_def no_faults_def)
  have f: "scan_update_failed_fault catch_write_fails = Some db_down"
    by (simp add: catch_write_fails_def createMany_fails_def no_faults_def)
  have t: "task_scanId rescan_task_7 = 7" by (simp add: rescan_task_7_def task_7_def)
  from rescan_diff_atomic [OF h1 h2 h3 h4 h5 disjI2 [OF h6]] h1 h2 h3 h4 rem del h5 h6 f t
  show ?thesis
    by (simp add: failed_data_def store_7_def db_down_def)
qed

text \<open>
  C3, as stated: after every run of the task the status is completed or failed.
  It fails when the store rejects the three writes of the status: the scan stays
  in progress.
\<close>

theorem status_stays_in_progress_counterexample:
  "map_option status (find_scan 7 (run_task status_writes_fail simple_works 9 task_7 empty_7))
     = Some ''in_progress''"
  by (simp add: run_task_def processScan_def try_block_def analyze_def save_results_def
      createMany_def scan_update_def find_scan_def status_writes_fail_def no_faults_def
      simple_works_def task_7_def empty_7_def scan_7_def one_issue_def)

text \<open>
  C3, amended: when the row of the scan exists and, in case the \<open>try\<close> block of
  \<open>processScan\<close> throws, the store accepts the write of the status failed of the
  \<open>catch\<close> block or the one of the handler of \<open>POST\<close>, the task leaves the status
  completed or failed, whatever the strategies and the writes of the results do.
\<close>

theorem status_terminal:
  assumes "find_scan (task_scanId t) st = Some s"
    and "fst (try_block fl ad now (task_scanId t) (task_url t) (task_options t)
                (task_isRescan t) st) = None
         \<or> scan_update_failed_fault fl = None \<or> scan_update_failed_POST_fault fl = None"
  shows "map_option status (find_scan (task_scanId t) (run_task fl ad now t st))
           \<in> {Some ''completed'', Some ''failed''}"
proof -
  let ?sid = "task_scanId t"
  obtain r1 st1 where tb: "try_block fl ad now ?sid (task_url t) (task_options t)
      (task_isRescan t) st = (r1, st1)"
    by (cases "try_block fl ad now ?sid (task_url t) (task_options t) (task_isRescan t) st")
  obtain r st2 where ps: "processScan fl ad now ?sid (task_url t) (task_options t)
      (task_isRescan t) st = (r, st2)"
    by (cases "processScan fl ad now ?sid (task_url t) (task_options t) (task_isRescan t) st")
  note out = processScan_outcome [OF assms(1) tb ps]
  show ?thesis
  proof (cases r1)
    case None
    with out have "r = None" "st2 = st1" by simp_all
    moreover from try_block_outcome [OF assms(1) tb] None obtain a m where
      "find_scan ?sid st1 = Some ((completed_data now a m s)\<lparr>scan_updatedAt := now\<rparr>)"
      by auto
    ultimately show ?thesis using ps
      by (simp add: run_task_def completed_data_def)
  next
    case (Some e)
    from try_block_outcome [OF assms(1) tb] Some have f1: "find_scan ?sid st1 = Some s" by simp
    show ?thesis
    proof (cases "scan_update_failed_fault fl")
      case None
      with out Some have r: "r = Some e"
        and f2: "find_scan ?sid st2 = Some ((failed_data now e s)\<lparr>scan_updatedAt := now\<rparr>)"
        by simp_all
      show ?thesis
      proof (cases "scan_update (scan_update_failed_POST_fault fl) ?sid now (failed_data now e) st2")
        case (Inl e')
        with ps r f2 show ?thesis by (simp add: run_task_def failed_data_def)
      next
        case (Inr p)
        obtain s3 st3 where p: "p = (s3, st3)" by (cases p)
        from Inr p have "scan_update_failed_POST_fault fl = None"
          by (auto simp: scan_update_def split: option.splits)
        with scan_update_ok [of ?sid st2 _ "failed_data now e" now, OF f2 failed_data_id] Inr p
        have "find_scan ?sid st3 = Some ((failed_data now e
            ((failed_data now e s)\<lparr>scan_updatedAt := now\<rparr>))\<lparr>scan_updatedAt := now\<rparr>)"
          by auto
        with ps r Inr p show ?thesis by (simp add: run_task_def failed_data_def)
      qed
    next
      case f: (Some e')
      with out Some have r: "r = Some e'" and st2: "st2 = st1" by simp_all
      from assms(2) tb Some f have "scan_update_failed_POST_fault fl = None" by simp
      with scan_update_ok [of ?sid st1 s "failed_data now e'" now, OF f1 failed_data_id]
      obtain st3 where "scan_update (scan_update_failed_POST_fault fl) ?sid now
          (failed_data now e') st1 = Inr ((failed_data now e' s)\<lparr>scan_updatedAt := now\<rparr>, st3)"
        "find_scan ?sid st3 = Some ((failed_data now e' s)\<lparr>scan_updatedAt := now\<rparr>)"
        by auto
      with ps r st2 show ?thesis by (simp add: run_task_def failed_data_def)
    qed
  qed
qed

theorem status_terminal_witness:
  "find_scan (task_scanId task_7) empty_7 = Some scan_7
   \<and> scan_update_failed_POST_fault (no_faults\<lparr>scan_update_completed_fault := Some db_down,
          scan_update_failed_fault := Some db_down\<rparr>) = None
   \<and> map_option status (find_scan (task_scanId task_7)
         (run_task (no_faults\<lparr>scan_update_completed_fault := Some db_down,
                              scan_update_failed_fault := Some db_down\<rparr>)
            simple_works 9 task_7 empty_7))
       \<in> {Some ''completed'', Some ''failed''}"
proof -
  have h1: "find_scan (task_scanId task_7) empty_7 = Some scan_7"
    by (simp add: find_scan_def task_7_def empty_7_def scan_7_def)
  have h2: "scan_update_failed_POST_fault (no_faults\<lparr>scan_update_completed_fault := Some db_down,
          scan_update_failed_fault := Some db_down\<rparr>) = None"
    by (simp add: no_faults_def)
  from status_terminal [OF h1, of _ simple_works 9] h1 h2 show ?thesis by blast
qed

text \<open>
  C4. Reconciliation is meant to be idempotent, and is not: a fresh finding
  without details is inserted with the details \<open>{}\<close> (\<open>details || {}\<close>), and the second
  run with the same list compares \<open>{}\<close> with \<open>undefined\<close> and emits a patch.
\<close>

theorem idempotence_fails_without_details:
  "handleRescanDiff no_faults 9 7 [no_details] empty_7
     = (None, \<lparr>scan_table = [scan_7], result_table = [new_row 7 9 8 (data_of no_details)],
               nextId = 9\<rparr>)
   \<and> details (new_row 7 9 8 (data_of no_details)) = Some (JObj [])
   \<and> toAdd [new_row 7 9 8 (data_of no_details)] [no_details] = []
   \<and> toRemove [new_row 7 9 8 (data_of no_details)] [no_details] = []
   \<and> toUpdate 10 [new_row 7 9 8 (data_of no_details)] [no_details]
       = [(8, \<lparr>changed = [(F_details, None)], u_updatedAt = 10\<rparr>)]"
  by (simp add: handleRescanDiff_def findMany_def transaction_def tx_body_def
      toAdd_collapse toRemove_collapse toUpdate_collapse spec_toAdd_def spec_toRemove_def
      patch_of_def changes_spec_patch spec_patch_def last_with_key_def
      createMany_def deleteMany_def data_of_def new_row_def stored_json_def own_keys_def
      no_faults_def empty_7_def scan_7_def createKey_def no_details_def low_contrast_def)

text \<open>
  C5. \<open>processScan\<close> tries the simple checker, then Playwright, then the HTML
  validator, and stops at the first that does not fail: \<open>analyze\<close> is the first
  success of the three strategies in this order, and the strategies that were
  called are those up to that one. When \<open>processScan\<close> completes, the results
  that were saved are those of that strategy and the row of the scan is the
  completed one, whose \<open>analysisMethod\<close> is the name of the strategy. When the three
  fail and the store accepts the write of the failure, the row is the failed
  one, whose error is the message that concatenates the three reasons.
\<close>

theorem fallback_order:
  assumes "find_scan sid st = Some s"
    and "processScan fl ad now sid u opts isRescan st = (r, st')"
  shows "analyze ad u opts =
       (case first_success (strategies ad u opts) of
          Some w \<Rightarrow> Inr w
        | None \<Rightarrow> Inl (Error ''Error'' (all_failed_message (strategies ad u opts))),
        tried (strategies ad u opts))
     \<and> (r = None \<longrightarrow>
          (\<exists>a m st1. first_success (strategies ad u opts) = Some (a, m)
             \<and> save_results fl now sid isRescan (results a) st = (None, st1)
             \<and> result_table st' = result_table st1
             \<and> find_scan sid st' = Some ((completed_data now a m s)\<lparr>scan_updatedAt := now\<rparr>)))
     \<and> (first_success (strategies ad u opts) = None \<longrightarrow> scan_update_failed_fault fl = None \<longrightarrow>
          r = Some (Error ''Error'' (all_failed_message (strategies ad u opts)))
          \<and> find_scan sid st' =
              Some ((failed_data now (Error ''Error'' (all_failed_message (strategies ad u opts))) s)
                      \<lparr>scan_updatedAt := now\<rparr>))"
proof -
  let ?msg = "all_failed_message (strategies ad u opts)"
  obtain r1 st1 where tb: "try_block fl ad now sid u opts isRescan st = (r1, st1)"
    by (cases "try_block fl ad now sid u opts isRescan st")
  note out = processScan_outcome [OF assms(1) tb assms(2)]
  have an: "fst (analyze ad u opts) =
      (case first_success (strategies ad u opts) of Some w \<Rightarrow> Inr w
       | None \<Rightarrow> Inl (Error ''Error'' ?msg))"
    by (simp add: analyze_spec)
  have completed: "\<exists>a m st1. first_success (strategies ad u opts) = Some (a, m)
             \<and> save_results fl now sid isRescan (results a) st = (None, st1)
             \<and> result_table st' = result_table st1
             \<and> find_scan sid st' = Some ((completed_data now a m s)\<lparr>scan_updatedAt := now\<rparr>)"
    if "r = None"
  proof -
    from out that have r1: "r1 = None" and st': "st' = st1"
      by (auto split: option.splits)
    from r1 tb an obtain a m where w: "first_success (strategies ad u opts) = Some (a, m)"
      by (cases "first_success (strategies ad u opts)") (auto simp: try_block_def)
    with an have fa: "fst (analyze ad u opts) = Inr (a, m)" by simp
    obtain r0 st0 where sv: "save_results fl now sid isRescan (results a) st = (r0, st0)"
      by (cases "save_results fl now sid isRescan (results a) st")
    from save_results_find [OF sv] assms(1) have f0: "find_scan sid st0 = Some s" by simp
    from tb fa sv r1 have r0: "r0 = None"
      by (cases r0) (auto simp: try_block_def)
    from tb fa sv r0 r1 obtain s2 where
      up: "scan_update (scan_update_completed_fault fl) sid now (completed_data now a m) st0
        = Inr (s2, st1)"
      by (auto simp: try_block_def split: sum.splits)
    then have "scan_update_completed_fault fl = None"
      by (auto simp: scan_update_def split: option.splits)
    with scan_update_ok [of sid st0 s "completed_data now a m" now, OF f0 completed_data_id] up
    have "find_scan sid st1 = Some ((completed_data now a m s)\<lparr>scan_updatedAt := now\<rparr>)"
      "result_table st1 = result_table st0"
      by auto
    with w sv r0 st' show ?thesis by auto
  qed
  have failed: "r = Some (Error ''Error'' ?msg)
      \<and> find_scan sid st' = Some ((failed_data now (Error ''Error'' ?msg) s)\<lparr>scan_updatedAt := now\<rparr>)"
    if "first_success (strategies ad u opts) = None" "scan_update_failed_fault fl = None"
  proof -
    from that(1) an tb have "r1 = Some (Error ''Error'' ?msg)"
      by (auto simp: try_block_def)
    with out that(2) show ?thesis by simp
  qed
  from completed failed show ?thesis
    by (simp add: analyze_spec)
qed

theorem fallback_order_witness:
  "find_scan 7 empty_7 = Some scan_7
   \<and> fst (processScan no_faults playwright_works 9 7 ''https://a.com'' default_options False
            empty_7) = None
   \<and> snd (analyze playwright_works ''https://a.com'' default_options) = [''simple'', ''playwright'']
   \<and> map_option analysisMethod (find_scan 7 (snd (processScan no_faults playwright_works 9 7
         ''https://a.com'' default_options False empty_7))) = Some (Some ''playwright'')
   \<and> first_success (strategies nothing_works ''https://a.com'' default_options) = None
   \<and> scan_update_failed_fault no_faults = None
   \<and> map_option error (find_scan 7 (snd (processScan no_faults nothing_works 9 7
         ''https://a.com'' default_options False empty_7)))
       = Some (Some (''All analysis methods failed: Simple: Error: timeout, ''
                     @ ''Playwright: Error: no browser, HTML: 404''))"
proof -
  let ?u = "''https://a.com''"
  let ?p = "processScan no_faults playwright_works 9 7 ?u default_options False empty_7"
  let ?q = "processScan no_faults nothing_works 9 7 ?u default_options False empty_7"
  have h1: "find_scan 7 empty_7 = Some scan_7"
    by (simp add: find_scan_def empty_7_def scan_7_def)
  have hp: "?p = (fst ?p, snd ?p)" and hq: "?q = (fst ?q, snd ?q)" by simp_all
  have r: "fst ?p = None"
    by (simp add: processScan_def try_block_def analyze_def save_results_def createMany_def
        scan_update_def playwright_works_def no_faults_def empty_7_def scan_7_def one_issue_def)
  have s: "strategies playwright_works ?u default_options =
      [(''simple'', Inl (Error ''Error'' ''timeout'')), (''playwright'', Inr one_issue),
       (''html-validator'', Inl (Error ''Error'' ''no parser''))]"
    by (simp add: strategies_def playwright_works_def)
  have n: "strategies nothing_works ?u default_options =
      [(''simple'', Inl (Error ''Error'' ''timeout'')),
       (''playwright'', Inl (Error ''Error'' ''no browser'')),
       (''html-validator'', Inl (NonError ''404''))]"
    by (simp add: strategies_def nothing_works_def)
  have h5: "first_success (strategies nothing_works ?u default_options) = None"
    by (simp add: n)
  have h6: "scan_update_failed_fault no_faults = None" by (simp add: no_faults_def)
  from fallback_order [OF h1 hp] r s have
    "snd (analyze playwright_works ?u default_options) = [''simple'', ''playwright'']"
    "map_option analysisMethod (find_scan 7 (snd ?p)) = Some (Some ''playwright'')"
    by (auto simp: completed_data_def)
  moreover from fallback_order [OF h1 hq] h5 h6 n have
    "map_option error (find_scan 7 (snd ?q))
       = Some (Some (''All analysis methods failed: Simple: Error: timeout, ''
                     @ ''Playwright: Error: no browser, HTML: 404''))"
    by (simp add: failed_data_def all_failed_message_def)
  ultimately show ?thesis using h1 r h5 h6 by simp
qed

text \<open>
  C6. A stored row whose identity key matches a fresh finding is still stored
  after the reconciliation, with the same id, createdAt, scanId, url, message,
  element and severity; each of help, impact, tags, elementPath and details is
  as it was, or differs between the row and the last fresh finding with its key
  and has the value of that finding, as its column holds it; \<open>updatedAt\<close> is new
  when the row was written.
  The ids of the stored rows are distinct, as the schema has it.
\<close>

theorem rescan_frame:
  assumes "distinct (map id' (result_table st))"
    and "e \<in> set (result_table st)" and "scanId e = sid"
    and "last_with_key (createKey e) R2 = Some n"
    and "handleRescanDiff fl now sid R2 st = (r, st')"
  shows "\<exists>e'\<in>set (result_table st'). same_identity e e' \<and> patched_by n now e e'"
proof -
  from handleRescanDiff_cases [OF assms(5)] show ?thesis
  proof
    assume "r \<noteq> None \<and> st' = st"
    with assms(2) same_identity_refl patched_by_refl show ?thesis by blast
  next
    assume "r = None \<and> result_findMany_fault fl = None \<and> tx_commit_fault fl = None
        \<and> tx_body fl sid now
             (toRemove (filter (\<lambda>r. scanId r = sid) (result_table st)) R2)
             (toAdd (filter (\<lambda>r. scanId r = sid) (result_table st)) R2)
             (toUpdate now (filter (\<lambda>r. scanId r = sid) (result_table st)) R2) st = Inr st'"
    then show ?thesis
      using tx_body_keeps [OF assms(1-4) refl] by blast
  qed
qed

theorem rescan_frame_witness:
  "distinct (map id' (result_table store_7))
   \<and> missing_alt_old \<in> set (result_table store_7)
   \<and> scanId missing_alt_old = 7
   \<and> last_with_key (createKey missing_alt_old) [missing_alt_new, low_contrast]
       = Some missing_alt_new
   \<and> (\<exists>e'\<in>set (result_table
          (snd (handleRescanDiff no_faults 9 7 [missing_alt_new, low_contrast] store_7))).
        same_identity missing_alt_old e' \<and> patched_by missing_alt_new 9 missing_alt_old e')"
proof -
  have h1: "distinct (map id' (result_table store_7))" by (simp add: store_7_def)
  have h2: "missing_alt_old \<in> set (result_table store_7)" by (simp add: store_7_def)
  have h3: "scanId missing_alt_old = 7" by (simp add: missing_alt_old_def)
  have h4: "last_with_key (createKey missing_alt_old) [missing_alt_new, low_contrast]
      = Some missing_alt_new"
    by (simp add: last_with_key_def createKey_def missing_alt_old_def missing_alt_new_def
        low_contrast_def)
  have h5: "handleRescanDiff no_faults 9 7 [missing_alt_new, low_contrast] store_7
      = (fst (handleRescanDiff no_faults 9 7 [missing_alt_new, low_contrast] store_7),
         snd (handleRescanDiff no_faults 9 7 [missing_alt_new, low_contrast] store_7))"
    by simp
  from rescan_frame [OF h1 h2 h3 h4 h5] h1 h2 h3 h4 show ?thesis by simp
qed

text \<open>
  C7, as stated: the route answers 409 whenever a scan of the project is pending
  or in progress, and otherwise finds or creates a scan for every url and
  triggers the analysis of each. It fails in two ways. For a project without
  urls the route answers 400 before it looks at the scans. For a url without a
  scan the route creates a pending scan and sends a request without its id: the
  request makes another scan, which is analysed, the pending scan is never
  analysed, and the next rescan of the project is refused because of it.
\<close>

theorem rescan_as_stated_counterexample:
  "pendingScans no_urls_project \<noteq> []
   \<and> POST_rescan (\<lambda>u. None) 9 (Inr (Some no_urls_project)) store_7
       = (Failure 400 ''Project has no URLs to scan'', store_7, [])
   \<and> pendingScans idle_project = []
   \<and> map (\<lambda>s. (scan_id s, scan_url s, status s)) (scan_table after_rescan)
       = [(7, ''https://a.com'', ''completed''), (8, ''https://c.com'', ''pending'')]
   \<and> map req_scanId (snd (snd (POST_rescan (\<lambda>u. None) 9 (Inr (Some idle_project)) idle_store)))
       = [Some 7, None]
   \<and> map (\<lambda>s. (scan_id s, scan_url s, status s)) (scan_table after_requests)
       = [(7, ''https://a.com'', ''completed''), (8, ''https://c.com'', ''pending''),
          (10, ''https://c.com'', ''completed'')]
   \<and> POST_rescan (\<lambda>u. None) 12
        (Inr (Some (idle_project\<lparr>scans := rev (scan_table after_requests)\<rparr>))) after_requests
       = (Failure 409 conflict_message, after_requests, [])"
proof -
  have a: "pendingScans no_urls_project \<noteq> []
      \<and> POST_rescan (\<lambda>u. None) 9 (Inr (Some no_urls_project)) store_7
          = (Failure 400 ''Project has no URLs to scan'', store_7, [])"
    by (simp add: POST_rescan_def pendingScans_def no_urls_project_def busy_project_def
        scan_7_def)
  have i: "pendingScans idle_project = []"
    by (simp add: pendingScans_def idle_project_def scan_7_done_def scan_7_def)
  have b: "map (\<lambda>s. (scan_id s, scan_url s, status s)) (scan_table after_rescan)
      = [(7, ''https://a.com'', ''completed''), (8, ''https://c.com'', ''pending'')]"
    by (simp add: after_rescan_def rescan_of_idle_project scan_7_done_def scan_7_def
        pending_8_def)
  have c: "map req_scanId (snd (snd (POST_rescan (\<lambda>u. None) 9 (Inr (Some idle_project)) idle_store)))
      = [Some 7, None]"
    by (simp add: rescan_of_idle_project scanData_def)
  have e: "POST_rescan (\<lambda>u. None) 12
        (Inr (Some (idle_project\<lparr>scans := rev (scan_table after_requests)\<rparr>))) after_requests
      = (Failure 409 conflict_message, after_requests, [])"
  proof -
    have "(8, ''https://c.com'', ''pending'')
        \<in> set (map (\<lambda>s. (scan_id s, scan_url s, status s)) (scan_table after_requests))"
      unfolding after_requests_scans by simp
    then have "\<exists>s\<in>set (scan_table after_requests). status s = ''pending''"
      by auto
    then have "pendingScans (idle_project\<lparr>scans := rev (scan_table after_requests)\<rparr>) \<noteq> []"
      by (auto simp: pendingScans_def filter_empty_conv)
    then show ?thesis
      by (simp add: POST_rescan_def idle_project_def)
  qed
  from a i b c after_requests_scans e show ?thesis by (simp only: simp_thms)
qed

text \<open>
  C7, amended: for a project that exists and has at least one url, the route
  answers 409, writes nothing and sends no request when a scan of the project is
  pending or in progress. Otherwise, when the store accepts the creations, it
  answers with one entry for each url, the latest scan of the url or a scan
  created for it, pending, and for each url whose scan was found it triggers the
  analysis of that scan: it sends a request for the rescan of that scan to
  \<open>POST /api/scans\<close>, which starts the analysis when it receives the request. What
  is triggered for a scan that the route created is left open.
\<close>

theorem rescan_conflict:
  assumes "urls p \<noteq> []"
  shows "if pendingScans p \<noteq> []
         then POST_rescan fault now (Inr (Some p)) st = (Failure 409 conflict_message, st, [])
         else list_all (\<lambda>u. fault u = None) (urls p) \<longrightarrow>
           (\<exists>body st' rows reqs.
              POST_rescan fault now (Inr (Some p)) st = (Json body, st', reqs)
              \<and> scan_table st' = scan_table st @ rows
              \<and> result_table st' = result_table st
              \<and> list_all2 (found_or_created p rows) (urls p) (body_scans body)
              \<and> list_all (\<lambda>u. case existingScan p u of
                                 None \<Rightarrow> True
                               | Some s \<Rightarrow>
                                   list_ex (\<lambda>req. rescan_of p u s req \<and> starts_rescan req u s) reqs)
                   (urls p))"
proof (cases "pendingScans p \<noteq> []")
  case True
  with assms show ?thesis by (simp add: POST_rescan_def conflict_message_def)
next
  case False
  let ?reqs = "map (\<lambda>u. scanData p u (map_option scan_id (existingScan p u))) (urls p)"
  have "\<exists>body st' rows.
      POST_rescan fault now (Inr (Some p)) st = (Json body, st', ?reqs)
      \<and> scan_table st' = scan_table st @ rows \<and> result_table st' = result_table st
      \<and> list_all2 (found_or_created p rows) (urls p) (body_scans body)"
    if ok: "list_all (\<lambda>u. fault u = None) (urls p)"
  proof -
    obtain rs st' where rs: "rescan_urls fault now p (urls p) st = (rs, st')"
      by (cases "rescan_urls fault now p (urls p) st")
    from rescan_urls_ok [OF ok rs] obtain rows where
      h: "\<not> list_ex isl rs"
        "map (\<lambda>r. snd (projr r)) rs = ?reqs"
        "result_table st' = result_table st" "scan_table st' = scan_table st @ rows"
        "list_all2 (found_or_created p rows) (urls p) (map (\<lambda>r. fst (projr r)) rs)" by blast
    from h(1) have "filter (\<lambda>r. \<not> isl r) rs = rs"
      by (induction rs) auto
    with assms False rs h show ?thesis
      by (simp add: POST_rescan_def)
  qed
  moreover have "list_all (\<lambda>u. case existingScan p u of
                                 None \<Rightarrow> True
                               | Some s \<Rightarrow>
                                   list_ex (\<lambda>req. rescan_of p u s req \<and> starts_rescan req u s) ?reqs)
                   (urls p)"
    unfolding list_all_iff
  proof
    fix u assume u: "u \<in> set (urls p)"
    show "case existingScan p u of None \<Rightarrow> True
          | Some s \<Rightarrow> list_ex (\<lambda>req. rescan_of p u s req \<and> starts_rescan req u s) ?reqs"
    proof (cases "existingScan p u")
      case None
      then show ?thesis by simp
    next
      case (Some s)
      with u have "scanData p u (Some (scan_id s)) \<in> set ?reqs" by force
      with Some scanData_rescan_of [of p u s] rescan_of_starts [OF scanData_rescan_of [of p u s]]
      show ?thesis by (auto simp: list_ex_iff)
    qed
  qed
  ultimately show ?thesis using False by auto
qed

theorem rescan_conflict_witness:
  "urls busy_project \<noteq> [] \<and> pendingScans busy_project \<noteq> []
   \<and> POST_rescan (\<lambda>u. None) 9 (Inr (Some busy_project)) store_7
       = (Failure 409 conflict_message, store_7, [])
   \<and> urls idle_project \<noteq> [] \<and> pendingScans idle_project = []
   \<and> list_all (\<lambda>u. (\<lambda>u. None :: thrown option) u = None) (urls idle_project)
   \<and> existingScan idle_project ''https://a.com'' = Some scan_7_done
   \<and> list_ex (rescan_of idle_project ''https://a.com'' scan_7_done)
        (snd (snd (POST_rescan (\<lambda>u. None) 9 (Inr (Some idle_project)) idle_store)))
   \<and> map entry_status
        (case fst (POST_rescan (\<lambda>u. None) 9 (Inr (Some idle_project)) idle_store) of
           Json body \<Rightarrow> body_scans body | Failure code text \<Rightarrow> [])
       = [''rescanning'', ''pending'']"
proof -
  have b: "urls busy_project \<noteq> []" "pendingScans busy_project \<noteq> []"
    by (simp_all add: busy_project_def pendingScans_def scan_7_def)
  have i: "urls idle_project \<noteq> []" "pendingScans idle_project = []"
    "list_all (\<lambda>u. (\<lambda>u. None :: thrown option) u = None) (urls idle_project)"
    by (simp_all add: idle_project_def pendingScans_def scan_7_done_def scan_7_def)
  have x: "existingScan idle_project ''https://a.com'' = Some scan_7_done"
    "existingScan idle_project ''https://c.com'' = None"
    by (simp_all add: existingScan_def idle_project_def scan_7_done_def scan_7_def)
  have u: "urls idle_project = [''https://a.com'', ''https://c.com'']"
    by (simp add: idle_project_def)
  from rescan_conflict [OF b(1), of "\<lambda>u. None" 9 store_7] b(2)
  have "POST_rescan (\<lambda>u. None) 9 (Inr (Some busy_project)) store_7
       = (Failure 409 conflict_message, store_7, [])"
    by simp
  moreover from rescan_conflict [OF i(1), of "\<lambda>u. None" 9 idle_store] i(2,3)
  obtain body st' rows reqs where
    r: "POST_rescan (\<lambda>u. None) 9 (Inr (Some idle_project)) idle_store = (Json body, st', reqs)"
      "list_all2 (found_or_created idle_project rows) (urls idle_project) (body_scans body)"
      "list_all (\<lambda>u. case existingScan idle_project u of
                        None \<Rightarrow> True
                      | Some s \<Rightarrow>
                          list_ex (\<lambda>req. rescan_of idle_project u s req \<and> starts_rescan req u s) reqs)
         (urls idle_project)"
    by auto
  from r(3) u x have "list_ex (rescan_of idle_project ''https://a.com'' scan_7_done) reqs"
    by (auto simp: list_ex_iff)
  moreover from r(2) u x have "map entry_status (body_scans body) = [''rescanning'', ''pending'']"
    by (auto simp: list_all2_Cons1 found_or_created_def)
  ultimately show ?thesis using b i x r(1) by simp
qed

text \<open>
  C8. A request to \<open>POST /api/scans\<close> with a project, a url and a \<open>scanId\<close> whose
  row exists resets that row in place: the status is in progress, \<open>startedAt\<close> is
  now, the url is the one of the request, and \<open>completedAt\<close>, the error, the five
  counters and the analysis method are cleared. Without a \<open>scanId\<close> a new row is
  created, in progress. In both cases the response is the row, in progress, and
  the analysis is left to a task that the handler does not wait for. The store
  is taken to accept the write.
\<close>

theorem POST_scans_resets_or_creates:
  assumes "req_projectId body = Some pid" and "req_url body = Some u" and "u \<noteq> []"
    and "case req_scanId body of
           Some sid \<Rightarrow> scan_update_reset_fault fl = None \<and> find_scan sid st = Some s
         | None \<Rightarrow> scan_create_fault fl = None"
  shows "\<exists>s' st'.
     POST_scans fl now (Some body) st =
       (Json s', st',
        Some \<lparr>task_scanId = scan_id s', task_url = u,
              task_options =
                (case req_complianceOptions body of None \<Rightarrow> default_options | Some opts \<Rightarrow> opts),
              task_isRescan = (req_scanId body \<noteq> None)\<rparr>)
     \<and> status s' = ''in_progress'' \<and> startedAt s' = Some now \<and> scan_url s' = u
     \<and> completedAt s' = None \<and> error s' = None \<and> totalIssues s' = None
     \<and> criticalIssues s' = None \<and> seriousIssues s' = None \<and> moderateIssues s' = None
     \<and> minorIssues s' = None \<and> analysisMethod s' = None
     \<and> result_table st' = result_table st
     \<and> (case req_scanId body of
           Some sid \<Rightarrow>
             s' = (reset_data now u s)\<lparr>scan_updatedAt := now\<rparr> \<and> scan_id s' = sid
             \<and> projectId s' = projectId s \<and> scan_createdAt s' = scan_createdAt s
             \<and> find_scan sid st' = Some s'
             \<and> length (scan_table st') = length (scan_table st)
         | None \<Rightarrow>
             scan_table st' = scan_table st @ [s'] \<and> scan_id s' = nextId st
             \<and> projectId s' = pid)"
proof (cases "req_scanId body")
  case None
  with assms show ?thesis
    by (simp add: POST_scans_def scan_create_def Let_def)
next
  case (Some sid)
  with assms(4) have f: "scan_update_reset_fault fl = None" "find_scan sid st = Some s"
    by simp_all
  from scan_update_ok [of sid st s "reset_data now u" now, OF f(2) reset_data_id]
  obtain st' where up: "scan_update None sid now (reset_data now u) st
      = Inr ((reset_data now u s)\<lparr>scan_updatedAt := now\<rparr>, st')"
    and f': "find_scan sid st' = Some ((reset_data now u s)\<lparr>scan_updatedAt := now\<rparr>)"
    and rt: "result_table st' = result_table st"
    by auto
  from up have len: "length (scan_table st') = length (scan_table st)"
    by (auto simp: scan_update_def split: option.splits dest: update_scan_row_length)
  from f(2) have id: "scan_id s = sid"
    by (auto simp: find_scan_def dest: find_Some_in)
  from assms(1-3) Some f(1) up f' rt len id show ?thesis
    by (simp add: POST_scans_def reset_data_def)
qed

theorem POST_scans_resets_or_creates_witness:
  "req_projectId rescan_request = Some 3 \<and> req_url rescan_request = Some ''https://b.com''
   \<and> ''https://b.com'' \<noteq> [] \<and> req_scanId rescan_request = Some 7
   \<and> scan_update_reset_fault no_faults = None \<and> find_scan 7 store_7 = Some scan_7
   \<and> map_option scan_url (find_scan 7 (fst (snd (POST_scans no_faults 9 (Some rescan_request)
         store_7)))) = Some ''https://b.com''
   \<and> snd (snd (POST_scans no_faults 9 (Some rescan_request) store_7))
       = Some \<lparr>task_scanId = 7, task_url = ''https://b.com'', task_options = default_options,
               task_isRescan = True\<rparr>
   \<and> req_scanId new_scan_request = None \<and> scan_create_fault no_faults = None
   \<and> map (\<lambda>s. (scan_id s, status s))
         (scan_table (fst (snd (POST_scans no_faults 9 (Some new_scan_request) store_7))))
       = [(7, ''in_progress''), (8, ''in_progress'')]
   \<and> snd (snd (POST_scans no_faults 9 (Some new_scan_request) store_7))
       = Some \<lparr>task_scanId = 8, task_url = ''https://b.com'', task_options = default_options,
               task_isRescan = False\<rparr>"
proof -
  have a1: "req_projectId rescan_request = Some 3" "req_url rescan_request = Some ''https://b.com''"
    "req_scanId rescan_request = Some 7" "req_complianceOptions rescan_request = None"
    by (simp_all add: rescan_request_def)
  have a2: "req_projectId new_scan_request = Some 3"
    "req_url new_scan_request = Some ''https://b.com''"
    "req_scanId new_scan_request = None" "req_complianceOptions new_scan_request = None"
    by (simp_all add: new_scan_request_def rescan_request_def)
  have n: "''https://b.com'' \<noteq> []" by simp
  have f: "scan_update_reset_fault no_faults = None" "scan_create_fault no_faults = None"
    by (simp_all add: no_faults_def)
  have s: "find_scan 7 store_7 = Some scan_7"
    by (simp add: find_scan_def store_7_def scan_7_def)
  have c1: "case req_scanId rescan_request of
       Some sid \<Rightarrow> scan_update_reset_fault no_faults = None \<and> find_scan sid store_7 = Some scan_7
     | None \<Rightarrow> scan_create_fault no_faults = None"
    using a1 f s by simp
  have c2: "case req_scanId new_scan_request of
       Some sid \<Rightarrow> scan_update_reset_fault no_faults = None \<and> find_scan sid store_7 = Some scan_7
     | None \<Rightarrow> scan_create_fault no_faults = None"
    using a2 f by simp
  from POST_scans_resets_or_creates [OF a1(1,2) n c1, of 9] a1 have
    "map_option scan_url (find_scan 7 (fst (snd (POST_scans no_faults 9 (Some rescan_request)
         store_7)))) = Some ''https://b.com''"
    "snd (snd (POST_scans no_faults 9 (Some rescan_request) store_7))
       = Some \<lparr>task_scanId = 7, task_url = ''https://b.com'', task_options = default_options,
               task_isRescan = True\<rparr>"
    by auto
  moreover from POST_scans_resets_or_creates [OF a2(1,2) n c2, of 9] a2 have
    "map (\<lambda>s. (scan_id s, status s))
         (scan_table (fst (snd (POST_scans no_faults 9 (Some new_scan_request) store_7))))
       = [(7, ''in_progress''), (8, ''in_progress'')]"
    "snd (snd (POST_scans no_faults 9 (Some new_scan_request) store_7))
       = Some \<lparr>task_scanId = 8, task_url = ''https://b.com'', task_options = default_options,
               task_isRescan = False\<rparr>"
    by (auto simp: store_7_def scan_7_def)
  ultimately show ?thesis using a1 a2 n f s by simp
qed

text \<open>
  C9. \<open>GET /projects/{id}/results\<close> is meant to keep, for each identity tuple, the
  most recent result, and does not: the map of the deduplication is keyed by
  the four texts joined by \<open>|\<close>, so that two findings with different messages and
  elements that join to the same text are taken for one finding, and the older
  of them is missing from the response.
\<close>

theorem results_merge_distinct_findings:
  "identity link_row \<noteq> identity (new_row 7 6 21 link_finding)
   \<and> allResults (completed_scans 3 links_store) = [link_row, new_row 7 6 21 link_finding]
   \<and> GET_results None ascii_lower code_unit_compare first_page 3 links_store
       = Json \<lparr>body_results =
                  [(new_row 7 6 21 link_finding,
                    Some \<lparr>info_id = 7, info_createdAt = 1, info_project = 3\<rparr>)],
                body_summary = \<lparr>critical = 0, serious = 0, moderate = 0, minor = 1, total = 1\<rparr>,
                body_total = 1, body_page = Some 1, body_pageSize = Some 10,
                body_totalPages = Some 1\<rparr>"
  by (simp add: GET_results_def completed_scans_def allResults_def uniqueResults_def
      deduplicationMap_def dedup_step_def Map_get_def apply_filters_def Array_sort_def
      slice_def startIndex_def endIndex_def totalPages_def count_severity_def scan_info_of_def
      identity_def createKey_def new_row_def stored_json_def own_keys_def
      links_store_def first_page_def link_row_def link_finding_def scan_7_done_def scan_7_def)

text \<open>
  C10. When several fresh findings share an identity key, only the last of them
  is considered: the map of the fresh findings holds, for each key, the last
  finding with that key, so that at most one finding for each key is inserted or
  is the source of a patch, and the earlier ones are dropped. Stored rows that
  share a key collapse in the same way: only the last of them is removed or
  patched.
\<close>

theorem duplicates_collapse:
  "newMap R2 = map (\<lambda>r. (createKey r, r)) (collapse R2)
   \<and> existingMap R1 = map (\<lambda>r. (createKey r, r)) (collapse R1)
   \<and> distinct (map createKey (collapse R2))
   \<and> distinct (map createKey (collapse R1))
   \<and> map (\<lambda>n. last_with_key (createKey n) R2) (collapse R2) = map Some (collapse R2)
   \<and> map (\<lambda>e. last_with_key (createKey e) R1) (collapse R1) = map Some (collapse R1)
   \<and> toAdd R1 R2 = spec_toAdd R1 (collapse R2)
   \<and> toRemove R1 R2 = spec_toRemove (collapse R1) R2
   \<and> toUpdate now R1 R2 = concat (map (patch_of now R2) (collapse R1))"
  by (simp only: newMap_collapse existingMap_collapse distinct_collapse collapse_last
      toAdd_collapse toRemove_collapse toUpdate_collapse simp_thms)

end
